theory Spec2Isabelle
  imports Main "HOL-Library.Code_Target_Nat"
begin

section \<open>EmbeddableWebServer.h: a shallow embedding\<close>

text \<open>
  The theory follows the order of the C source. A C string argument (\<open>const char*\<close>)
  is the list of its bytes before the terminating NUL. Memory the program writes into
  (the blocks of heap strings, the arrays of a request) is a list of bytes of the size
  of the block, and every access outside a block, or through a NULL pointer, is a value
  of type \<open>fault\<close>: what the C standard leaves undefined is an explicit result here.
  Not part of the embedding: the counters of the status page, what \<open>ews_printf\<close>
  prints, and a \<open>malloc\<close> that fails.
\<close>

abbreviation NUL :: char where "NUL \<equiv> CHR 0x00"
abbreviation CR :: char where "CR \<equiv> CHR 0x0D"
abbreviation LF :: char where "LF \<equiv> CHR 0x0A"

datatype fault =
    NullPointerDereference
  | OutOfBoundsAccess
  | AssertionFailed
  | DoesNotReturn

text \<open>\<open>size_t\<close> is 64 bits wide; its arithmetic wraps around.\<close>

definition size_t :: "nat \<Rightarrow> nat" where
  "size_t n = n mod 2 ^ 64"

subsection \<open>pathEscapesDocumentRoot (lines 450-454, 518-560)\<close>

datatype PathState = PathStateNormal | PathStateSep | PathStateDot

text \<open>
  The \<open>while\<close> loop of \<open>pathEscapesDocumentRoot\<close>: one equation per \<open>case\<close> of the
  \<open>switch\<close>, the loop variables \<open>subdirDepth\<close>, \<open>state\<close> and \<open>isFirstChar\<close> as
  arguments. The result is the value of \<open>subdirDepth\<close> when the terminating NUL is
  reached. (\<open>subdirDepth\<close> is a C \<open>int\<close>; a decoded request path has at most 1023
  bytes, so it cannot overflow and is an \<open>int\<close> here.)
\<close>

fun pathEscapesDocumentRoot_loop :: "int \<Rightarrow> PathState \<Rightarrow> bool \<Rightarrow> string \<Rightarrow> int" where
  "pathEscapesDocumentRoot_loop subdirDepth state isFirstChar [] = subdirDepth"
| "pathEscapesDocumentRoot_loop subdirDepth PathStateNormal isFirstChar (c # path) =
     (if c = CHR ''/'' \<or> c = CHR 0x5C then
        pathEscapesDocumentRoot_loop subdirDepth PathStateSep False path
      else if isFirstChar \<and> c = CHR ''.'' then
        pathEscapesDocumentRoot_loop subdirDepth PathStateDot False path
      else if isFirstChar then
        pathEscapesDocumentRoot_loop (subdirDepth + 1) PathStateNormal False path
      else
        pathEscapesDocumentRoot_loop subdirDepth PathStateNormal False path)"
| "pathEscapesDocumentRoot_loop subdirDepth PathStateSep isFirstChar (c # path) =
     (if c = CHR ''.'' then
        pathEscapesDocumentRoot_loop subdirDepth PathStateDot isFirstChar path
      else if c \<noteq> CHR ''/'' \<and> c \<noteq> CHR 0x5C then
        pathEscapesDocumentRoot_loop (subdirDepth + 1) PathStateNormal isFirstChar path
      else
        pathEscapesDocumentRoot_loop subdirDepth PathStateSep isFirstChar path)"
| "pathEscapesDocumentRoot_loop subdirDepth PathStateDot isFirstChar (c # path) =
     (if c = CHR ''/'' then
        pathEscapesDocumentRoot_loop subdirDepth PathStateSep isFirstChar path
      else if c = CHR ''.'' then
        pathEscapesDocumentRoot_loop (subdirDepth - 1) PathStateNormal isFirstChar path
      else
        pathEscapesDocumentRoot_loop subdirDepth PathStateNormal isFirstChar path)"

definition pathEscapesDocumentRoot :: "string \<Rightarrow> bool" where
  "pathEscapesDocumentRoot path =
     (if pathEscapesDocumentRoot_loop 0 PathStateNormal True path < 0 then True else False)"

text \<open>
  The depth scan as the specification words it, for comparison with the code: the path
  is cut into segments at the separators; an empty segment (duplicate separator) and
  \<open>.\<close> leave the depth, \<open>..\<close> decrements it, any other segment increments it; the
  path is refused when the depth is negative after some segment.
\<close>

fun spec_segments :: "string \<Rightarrow> string \<Rightarrow> string list" where
  "spec_segments seg [] = [rev seg]"
| "spec_segments seg (c # path) =
     (if c = CHR ''/'' \<or> c = CHR 0x5C then rev seg # spec_segments [] path
      else spec_segments (c # seg) path)"

fun spec_depthGoesNegative_from :: "int \<Rightarrow> string list \<Rightarrow> bool" where
  "spec_depthGoesNegative_from depth [] = False"
| "spec_depthGoesNegative_from depth (seg # segs) =
     (let depth' = (if seg = ''..'' then depth - 1
                    else if seg = ''.'' \<or> seg = [] then depth
                    else depth + 1)
      in if depth' < 0 then True else spec_depthGoesNegative_from depth' segs)"

definition spec_depthGoesNegative :: "string \<Rightarrow> bool" where
  "spec_depthGoesNegative path = spec_depthGoesNegative_from 0 (spec_segments [] path)"

subsection \<open>HeapString (lines 122-127, 621-760)\<close>

text \<open>
  \<open>hs_contents\<close> is the block \<open>contents\<close> points to (\<open>None\<close> is NULL), with the
  size \<open>malloc\<close>, \<open>calloc\<close> or \<open>realloc\<close> gave it. Allocation is taken to succeed.
\<close>

record HeapString =
  hs_contents :: "string option"
  hs_length :: nat
  hs_capacity :: nat

text \<open>\<open>block[i] = c\<close> through a pointer that may be NULL.\<close>

definition store_byte :: "string option \<Rightarrow> nat \<Rightarrow> char \<Rightarrow> fault + string" where
  "store_byte contents i c =
     (case contents of
        None \<Rightarrow> Inl NullPointerDereference
      | Some block \<Rightarrow> if i < length block then Inr (block[i := c]) else Inl OutOfBoundsAccess)"

text \<open>\<open>memcpy(&block[i], source, length source)\<close>; copying no byte touches nothing.\<close>

definition store_bytes :: "string option \<Rightarrow> nat \<Rightarrow> string \<Rightarrow> fault + string option" where
  "store_bytes contents i source =
     (if source = [] then Inr contents
      else case contents of
        None \<Rightarrow> Inl NullPointerDereference
      | Some block \<Rightarrow>
          if i + length source \<le> length block
          then Inr (Some (take i block @ source @ drop (i + length source) block))
          else Inl OutOfBoundsAccess)"

text \<open>
  The loop of \<open>heapStringNextAllocationSize\<close>. \<open>powerOf2 *= 2\<close> wraps around to 0
  when \<open>required\<close> is above \<open>2 ^ 63\<close>, and the loop then never ends: the result
  \<open>None\<close>.
\<close>

partial_function (option) heapStringNextAllocationSize_loop :: "nat \<Rightarrow> nat \<Rightarrow> nat option" where
  "heapStringNextAllocationSize_loop powerOf2 required =
     (if powerOf2 < required
      then heapStringNextAllocationSize_loop (size_t (powerOf2 * 2)) required
      else Some powerOf2)"

definition heapStringNextAllocationSize :: "nat \<Rightarrow> nat option" where
  "heapStringNextAllocationSize required = heapStringNextAllocationSize_loop 256 required"

text \<open>
  \<open>realloc\<close> keeps the bytes of the old block (as many as fit) and leaves the rest
  indeterminate; the \<open>memset\<close> that follows zeroes the block from \<open>length\<close> on, and
  faults when \<open>length\<close> is beyond the new block (\<open>capacity - length\<close> wraps around).
  The bytes between the end of the old block and \<open>length\<close>, which exist only for a
  heap string whose \<open>length\<close> is beyond its block, are NUL here.
\<close>

definition realloc_block :: "string option \<Rightarrow> nat \<Rightarrow> string" where
  "realloc_block contents n =
     (case contents of
        None \<Rightarrow> replicate n NUL
      | Some block \<Rightarrow> take n block @ replicate (n - length block) NUL)"

definition heapStringReallocIfNeeded :: "HeapString \<Rightarrow> nat \<Rightarrow> fault + HeapString" where
  "heapStringReallocIfNeeded string minimumCapacity =
     (if minimumCapacity \<le> hs_capacity string then Inr string
      else case heapStringNextAllocationSize minimumCapacity of
        None \<Rightarrow> Inl DoesNotReturn
      | Some capacity \<Rightarrow>
          if \<not> 0 < capacity then Inl AssertionFailed
          else if capacity < hs_length string then Inl OutOfBoundsAccess
          else Inr (string\<lparr>
                 hs_capacity := capacity,
                 hs_contents := Some (take (hs_length string) (realloc_block (hs_contents string) capacity)
                                      @ replicate (capacity - hs_length string) NUL)\<rparr>))"

definition heapStringAppendChar :: "HeapString \<Rightarrow> char \<Rightarrow> fault + HeapString" where
  "heapStringAppendChar string0 c =
     (case heapStringReallocIfNeeded string0 (size_t (hs_length string0 + 2)) of
        Inl f \<Rightarrow> Inl f
      | Inr string \<Rightarrow>
          (case store_byte (hs_contents string) (hs_length string) c of
             Inl f \<Rightarrow> Inl f
           | Inr block \<Rightarrow>
               (case store_byte (Some block) (size_t (hs_length string + 1)) NUL of
                  Inl f \<Rightarrow> Inl f
                | Inr block' \<Rightarrow>
                    Inr (string\<lparr>hs_contents := Some block',
                                hs_length := size_t (hs_length string + 1)\<rparr>))))"

definition heapStringSetToCString :: "HeapString \<Rightarrow> string \<Rightarrow> fault + HeapString" where
  "heapStringSetToCString heapString0 cString =
     (let cStringLength = length cString in
      case heapStringReallocIfNeeded heapString0 (size_t (cStringLength + 1)) of
        Inl f \<Rightarrow> Inl f
      | Inr heapString \<Rightarrow>
          (case store_bytes (hs_contents heapString) 0 cString of
             Inl f \<Rightarrow> Inl f
           | Inr contents \<Rightarrow>
               (case store_byte contents cStringLength NUL of
                  Inl f \<Rightarrow> Inl f
                | Inr block \<Rightarrow>
                    Inr (heapString\<lparr>hs_contents := Some block, hs_length := cStringLength\<rparr>))))"

definition heapStringAppendString :: "HeapString \<Rightarrow> string \<Rightarrow> fault + HeapString" where
  "heapStringAppendString string0 stringToAppend =
     (let stringToAppendLength = length stringToAppend in
      if 0 = stringToAppendLength then Inr string0
      else
        let requiredCapacity = size_t (stringToAppendLength + hs_length string0 + 1) in
        case heapStringReallocIfNeeded string0 requiredCapacity of
          Inl f \<Rightarrow> Inl f
        | Inr string \<Rightarrow>
            (case store_bytes (hs_contents string) (hs_length string) stringToAppend of
               Inl f \<Rightarrow> Inl f
             | Inr contents \<Rightarrow>
                 (let length' = size_t (hs_length string + stringToAppendLength) in
                  case store_byte contents length' NUL of
                    Inl f \<Rightarrow> Inl f
                  | Inr block \<Rightarrow>
                      Inr (string\<lparr>hs_contents := Some block, hs_length := length'\<rparr>))))"

text \<open>
  \<open>memcpy\<close> reads \<open>source->length\<close> bytes of the source's block: a fault when the
  block is shorter, or NULL with a length above 0.
\<close>

definition load_bytes :: "string option \<Rightarrow> nat \<Rightarrow> fault + string" where
  "load_bytes contents n =
     (if n = 0 then Inr []
      else case contents of
        None \<Rightarrow> Inl NullPointerDereference
      | Some block \<Rightarrow> if n \<le> length block then Inr (take n block) else Inl OutOfBoundsAccess)"

definition heapStringAppendHeapString :: "HeapString \<Rightarrow> HeapString \<Rightarrow> fault + HeapString" where
  "heapStringAppendHeapString target0 source =
     (case heapStringReallocIfNeeded target0 (size_t (hs_length target0 + hs_length source + 1)) of
        Inl f \<Rightarrow> Inl f
      | Inr target \<Rightarrow>
          (case load_bytes (hs_contents source) (hs_length source) of
             Inl f \<Rightarrow> Inl f
           | Inr bytes \<Rightarrow>
               (case store_bytes (hs_contents target) (hs_length target) bytes of
                  Inl f \<Rightarrow> Inl f
                | Inr contents \<Rightarrow>
                    (let length' = size_t (hs_length target + hs_length source) in
                     case store_byte contents length' NUL of
                       Inl f \<Rightarrow> Inl f
                     | Inr block \<Rightarrow>
                         Inr (target\<lparr>hs_contents := Some block, hs_length := length'\<rparr>)))))"

text \<open>
  \<open>heapStringAppendFormatV\<close>: the argument \<open>formatted\<close> is the text that the
  format and its arguments stand for. \<open>vsnprintf\<close> returns an \<open>int\<close>: the length of
  that text, or a negative number when the length is above \<open>INT_MAX\<close>; line 728 and
  line 733 store that \<open>int\<close> in a \<open>size_t\<close>. Both calls see the same format and
  arguments. The second \<open>vsnprintf\<close> writes at most \<open>capacity - length - 1\<close> bytes of
  the text and a NUL. \<open>heapStringAppendFormat\<close> only packs its arguments and calls
  \<open>heapStringAppendFormatV\<close>.
\<close>

abbreviation (input) INT_MAX :: nat where
  "INT_MAX \<equiv> 2 ^ 31 - 1"

definition vsnprintf_returns :: "string \<Rightarrow> int" where
  "vsnprintf_returns formatted =
     (if length formatted \<le> INT_MAX then int (length formatted) else - 1)"

definition size_t_of_int :: "int \<Rightarrow> nat" where
  "size_t_of_int i = nat (i mod 2 ^ 64)"

definition heapStringAppendFormatV :: "HeapString \<Rightarrow> string \<Rightarrow> fault + HeapString" where
  "heapStringAppendFormatV string0 formatted =
     (let appendLength = size_t_of_int (vsnprintf_returns formatted);
          requiredCapacity = size_t (hs_length string0 + appendLength + 1) in
      case heapStringReallocIfNeeded string0 requiredCapacity of
        Inl f \<Rightarrow> Inl f
      | Inr string \<Rightarrow>
          if \<not> hs_capacity string \<ge> size_t (hs_length string + appendLength + 1)
          then Inl AssertionFailed
          else
            (let room = size_t (hs_capacity string + 2 ^ 64 - hs_length string);
                 actualAppendLength = size_t_of_int (vsnprintf_returns formatted) in
             case store_bytes (hs_contents string) (hs_length string)
                    (if room = 0 then [] else take (room - 1) formatted @ [NUL]) of
               Inl f \<Rightarrow> Inl f
             | Inr contents \<Rightarrow>
                 (let length' = size_t (hs_length string + appendLength) in
                  if \<not> actualAppendLength = appendLength then Inl AssertionFailed
                  else
                    case store_byte contents length' NUL of
                      Inl f \<Rightarrow> Inl f
                    | Inr block \<Rightarrow>
                        Inr (string\<lparr>hs_contents := Some block, hs_length := length'\<rparr>))))"

definition heapStringAppendFormat :: "HeapString \<Rightarrow> string \<Rightarrow> fault + HeapString" where
  "heapStringAppendFormat string formatted = heapStringAppendFormatV string formatted"

definition heapStringInit :: HeapString where
  "heapStringInit = \<lparr>hs_contents = None, hs_length = 0, hs_capacity = 0\<rparr>"

text \<open>
  What the functions above rely on in a heap string they are given: \<open>capacity\<close> is
  not above the size of the block (0 when there is none), and the block is an object
  of the address space. \<open>heapStringInit\<close>, \<open>responseAlloc\<close> and the functions above
  give such heap strings.
\<close>

definition heapString_valid :: "HeapString \<Rightarrow> bool" where
  "heapString_valid string =
     (case hs_contents string of
        None \<Rightarrow> hs_capacity string = 0
      | Some block \<Rightarrow> hs_capacity string \<le> length block \<and> length block < 2 ^ 64)"

text \<open>
  The outcome the header promises for an append (``\<open>contents\<close>: null-terminated, at
  least \<open>length+1\<close>''): the function returns, \<open>capacity\<close> is above \<open>length\<close>, the
  block has \<open>capacity\<close> bytes and the byte at \<open>length\<close> is NUL.
\<close>

definition heapString_terminated :: "fault + HeapString \<Rightarrow> bool" where
  "heapString_terminated result =
     (case result of
        Inl f \<Rightarrow> False
      | Inr string \<Rightarrow>
          hs_length string < hs_capacity string \<and>
          (case hs_contents string of
             None \<Rightarrow> False
           | Some block \<Rightarrow>
               hs_capacity string \<le> length block \<and> block ! hs_length string = NUL))"

subsection \<open>Response (lines 221-227, 848-875, 896-899)\<close>

record Response =
  code :: int
  body :: HeapString
  filenameToSend :: "string option"
  status :: "string option"
  contentType :: "string option"

text \<open>\<open>status\<close> and \<open>contentType\<close> may be NULL (\<open>strdupIfNotNull\<close>): \<open>None\<close>.\<close>

definition responseAlloc :: "int \<Rightarrow> string option \<Rightarrow> string option \<Rightarrow> nat \<Rightarrow> Response" where
  "responseAlloc code' status' contentType' bodyCapacity =
     \<lparr>code = code',
      body = \<lparr>hs_contents = (if bodyCapacity > 0 then Some (replicate bodyCapacity NUL) else None),
              hs_length = 0,
              hs_capacity = bodyCapacity\<rparr>,
      filenameToSend = None,
      status = status',
      contentType = contentType'\<rparr>"

text \<open>The parameters \<open>code\<close> and \<open>status\<close> are not used by the body of the function.\<close>

definition responseAllocHTMLWithStatus :: "int \<Rightarrow> string option \<Rightarrow> string \<Rightarrow> fault + Response" where
  "responseAllocHTMLWithStatus code' status' html =
     (let response = responseAlloc 200 (Some ''OK'') (Some ''text/html; charset=UTF-8'') 0 in
      case heapStringSetToCString (body response) html of
        Inl f \<Rightarrow> Inl f
      | Inr body' \<Rightarrow> Inr (response\<lparr>body := body'\<rparr>))"

text \<open>
  \<open>responseAllocServeFileFromRequestPath\<close>: the first statement is the check of the
  decoded path. What follows it (lines 900-970) asks the file system; it is the
  argument \<open>serveFromFileSystem\<close> here.
\<close>

definition responseAllocServeFileFromRequestPath ::
  "(string \<Rightarrow> string \<Rightarrow> string \<Rightarrow> fault + Response) \<Rightarrow> string \<Rightarrow> string \<Rightarrow> string \<Rightarrow> fault + Response" where
  "responseAllocServeFileFromRequestPath serveFromFileSystem requestPath requestPathDecoded documentRoot =
     (if pathEscapesDocumentRoot requestPathDecoded then
        responseAllocHTMLWithStatus 403 (Some ''Forbidden'')
          ''<html><head><title>Forbidden</title></head><body>You are not allowed to access this URL</body></html>''
      else serveFromFileSystem requestPath requestPathDecoded documentRoot)"

subsection \<open>sendResponseBody (lines 1383-1429)\<close>

text \<open>
  Of a connection, the function uses the buffer \<open>responseHeader\<close> and the socket. The
  socket is the list of the bytes it has taken so far (\<open>wire\<close>) and, as the
  environment's part, the values the coming calls of \<open>send\<close> return (\<open>sendReturns\<close>):
  a call that returns \<open>n > 0\<close> has put the first \<open>n\<close> bytes of its buffer on the wire.
\<close>

record Connection =
  responseHeader :: string
  wire :: string
  sendReturns :: "int list"

abbreviation (input) RESPONSE_HEADER_SIZE :: nat where "RESPONSE_HEADER_SIZE \<equiv> 1024"

definition send :: "Connection \<Rightarrow> string \<Rightarrow> int \<times> Connection" where
  "send connection buffer =
     (case sendReturns connection of
        [] \<Rightarrow> (- 1, connection)
      | sendResult # rest \<Rightarrow>
          (sendResult,
           connection\<lparr>wire := wire connection @ take (nat sendResult) buffer, sendReturns := rest\<rparr>))"

text \<open>The conversions \<open>%d\<close> and \<open>%ld\<close> of \<open>printf\<close>, and the cast \<open>(long)\<close> of a \<open>size_t\<close>.\<close>

fun decimal_nat :: "nat \<Rightarrow> string" where
  "decimal_nat n =
     (if n < 10 then [''0123456789'' ! n]
      else decimal_nat (n div 10) @ [''0123456789'' ! (n mod 10)])"

definition decimal_int :: "int \<Rightarrow> string" where
  "decimal_int i = (if i < 0 then CHR ''-'' # decimal_nat (nat (- i)) else decimal_nat (nat i))"

definition long_of_size_t :: "nat \<Rightarrow> int" where
  "long_of_size_t n = (if n < 2 ^ 63 then int n else int n - 2 ^ 64)"

text \<open>
  \<open>snprintf(buffer, size, ...)\<close> where \<open>text\<close> is what the format and its arguments
  produce: at most \<open>size - 1\<close> bytes of it and a NUL are written, its whole length is
  returned.
\<close>

definition snprintf :: "string \<Rightarrow> nat \<Rightarrow> string \<Rightarrow> string \<times> int" where
  "snprintf buffer size' text =
     (if size' = 0 then (buffer, int (length text))
      else (let written = take (size' - 1) text @ [NUL]
            in (written @ drop (length written) buffer, int (length text))))"

definition responseHeaderText :: "int \<Rightarrow> string \<Rightarrow> string \<Rightarrow> nat \<Rightarrow> string" where
  "responseHeaderText code' status' contentType' bodyLength =
     ''HTTP/1.0 '' @ decimal_int code' @ '' '' @ status' @ [CR, LF]
     @ ''Content-Type: '' @ contentType' @ [CR, LF]
     @ ''Content-Length: '' @ decimal_int (long_of_size_t bodyLength) @ [CR, LF]
     @ ''Server: Embeddable Web Server/1.0.0'' @ [CR, LF]
     @ [CR, LF]"

text \<open>
  The result is the value returned, the connection and \<open>*bytesSent\<close>. A NULL
  \<open>status\<close> or \<open>contentType\<close> under \<open>%s\<close>, and a \<open>send\<close> of more bytes than
  \<open>responseHeader\<close> has, are faults.
\<close>

definition sendResponseBody :: "Connection \<Rightarrow> Response \<Rightarrow> int \<Rightarrow> fault + (int \<times> Connection \<times> int)" where
  "sendResponseBody connection response bytesSent =
     (case status response of
        None \<Rightarrow> Inl NullPointerDereference
      | Some status' \<Rightarrow>
     (case contentType response of
        None \<Rightarrow> Inl NullPointerDereference
      | Some contentType' \<Rightarrow>
     (let (buffer, headerLength) =
            snprintf (responseHeader connection) RESPONSE_HEADER_SIZE
              (responseHeaderText (code response) status' contentType' (hs_length (body response)));
          connection1 = connection\<lparr>responseHeader := buffer\<rparr>
      in
      if nat headerLength > length buffer then Inl OutOfBoundsAccess
      else
        (let (sendResult, connection2) = send connection1 (take (nat headerLength) buffer) in
         if sendResult \<noteq> headerLength then Inr (- 1, connection2, bytesSent)
         else
           (let bytesSent1 = bytesSent + sendResult in
            if hs_length (body response) > 0 then
              (case load_bytes (hs_contents (body response)) (hs_length (body response)) of
                 Inl f \<Rightarrow> Inl f
               | Inr bytes \<Rightarrow>
                   (let (sendResult', connection3) = send connection2 bytes in
                    if sendResult' \<noteq> int (hs_length (body response))
                    then Inr (- 1, connection3, bytesSent1)
                    else Inr (0, connection3, bytesSent1 + sendResult')))
            else Inr (0, connection2, bytesSent1))))))"

subsection \<open>Request (lines 53-55, 109-177)\<close>

abbreviation (input) REQUEST_MAX_HEADERS :: nat where "REQUEST_MAX_HEADERS \<equiv> 64"
abbreviation (input) REQUEST_HEADERS_MAX_MEMORY :: nat where "REQUEST_HEADERS_MAX_MEMORY \<equiv> 8 * 1024"
abbreviation (input) REQUEST_MAX_BODY_LENGTH :: int where "REQUEST_MAX_BODY_LENGTH \<equiv> 128 * 1024 * 1024"

datatype RequestParseState =
    RequestParseStateMethod
  | RequestParseStatePath
  | RequestParseStateVersion
  | RequestParseStateHeaderName
  | RequestParseStateHeaderValue
  | RequestParseStateCR
  | RequestParseStateCRLF
  | RequestParseStateCRLFCR
  | RequestParseStateBody
  | RequestParseStateDone

text \<open>
  The \<open>contents\<close> of a pool string points into \<open>headersStringPool\<close> of its request:
  it is the index of the byte it points to, and \<open>None\<close> when it is NULL.
\<close>

record PoolString =
  ps_contents :: "nat option"
  ps_length :: nat

record Header =
  name :: PoolString
  "value" :: PoolString

record Warnings =
  headersStringPoolExhausted :: bool
  headersTooManyDropped :: bool
  methodTruncated :: bool
  versionTruncated :: bool
  pathTruncated :: bool
  bodyTruncated :: bool

record Request =
  "method" :: string
  methodLength :: nat
  version :: string
  versionLength :: nat
  path :: string
  pathLength :: nat
  pathDecoded :: string
  pathDecodedLength :: nat
  body :: HeapString
  headers :: "Header list"
  headersCount :: nat
  headersStringPool :: string
  headersStringPoolOffset :: nat
  warnings :: Warnings
  state :: RequestParseState

text \<open>A request is allocated with \<open>calloc\<close>: every byte of it is 0.\<close>

definition zeroPoolString :: PoolString where
  "zeroPoolString = \<lparr>ps_contents = None, ps_length = 0\<rparr>"

definition zeroHeader :: Header where
  "zeroHeader = \<lparr>name = zeroPoolString, value = zeroPoolString\<rparr>"

definition zeroWarnings :: Warnings where
  "zeroWarnings =
     \<lparr>headersStringPoolExhausted = False, headersTooManyDropped = False,
      methodTruncated = False, versionTruncated = False, pathTruncated = False,
      bodyTruncated = False\<rparr>"

definition zeroRequest :: Request where
  "zeroRequest =
     \<lparr>method = replicate 64 NUL, methodLength = 0,
      version = replicate 16 NUL, versionLength = 0,
      path = replicate 1024 NUL, pathLength = 0,
      pathDecoded = replicate 1024 NUL, pathDecodedLength = 0,
      body = \<lparr>hs_contents = None, hs_length = 0, hs_capacity = 0\<rparr>,
      headers = replicate REQUEST_MAX_HEADERS zeroHeader, headersCount = 0,
      headersStringPool = replicate REQUEST_HEADERS_MAX_MEMORY NUL, headersStringPoolOffset = 0,
      warnings = zeroWarnings,
      state = RequestParseStateMethod\<rparr>"

text \<open>Reading and writing an element of an array of the request.\<close>

definition load_at :: "'a list \<Rightarrow> nat \<Rightarrow> fault + 'a" where
  "load_at array i = (if i < length array then Inr (array ! i) else Inl OutOfBoundsAccess)"

definition store_at :: "'a list \<Rightarrow> nat \<Rightarrow> 'a \<Rightarrow> fault + 'a list" where
  "store_at array i x = (if i < length array then Inr (array[i := x]) else Inl OutOfBoundsAccess)"

text \<open>
  The C string that starts at index \<open>i\<close> of an array: the bytes up to the first NUL.
  Without a NUL the read runs over the end of the array.
\<close>

definition cstring_at :: "string \<Rightarrow> nat \<Rightarrow> fault + string" where
  "cstring_at array i =
     (let rest = drop i array in
      if NUL \<in> set rest then Inr (takeWhile (\<lambda>c. c \<noteq> NUL) rest) else Inl OutOfBoundsAccess)"

subsection \<open>The C library: strcasecmp and sscanf\<close>

definition tolower :: "char \<Rightarrow> char" where
  "tolower c =
     (if (65::nat) \<le> of_char c \<and> of_char c \<le> (90::nat) then char_of (of_char c + (32::nat)) else c)"

definition strcasecmp_is_0 :: "string \<Rightarrow> string \<Rightarrow> bool" where
  "strcasecmp_is_0 s1 s2 = (map tolower s1 = map tolower s2)"

definition isspace :: "char \<Rightarrow> bool" where
  "isspace c = (c = CHR '' '' \<or> ((9::nat) \<le> of_char c \<and> of_char c \<le> (13::nat)))"

definition isdigit :: "char \<Rightarrow> bool" where
  "isdigit c = ((48::nat) \<le> of_char c \<and> of_char c \<le> (57::nat))"

definition digit_value :: "char \<Rightarrow> int" where
  "digit_value c = int (of_char c) - 48"

fun decimal_value :: "int \<Rightarrow> string \<Rightarrow> int" where
  "decimal_value acc [] = acc"
| "decimal_value acc (c # cs) = decimal_value (acc * 10 + digit_value c) cs"

text \<open>
  \<open>sscanf(text, "%ld", &n)\<close>: white space is skipped, then an optional sign and a
  non-empty run of decimal digits are converted; \<open>None\<close> when \<open>sscanf\<close> does not
  return 1. A value outside \<open>long\<close> is the nearest \<open>long\<close>, as \<open>strtol\<close> gives it.
\<close>

definition sscanf_ld :: "string \<Rightarrow> int option" where
  "sscanf_ld text =
     (let unspaced = dropWhile isspace text;
          negative = (case unspaced of [] \<Rightarrow> False | c # _ \<Rightarrow> c = CHR ''-'');
          unsigned = (case unspaced of [] \<Rightarrow> []
                      | c # rest \<Rightarrow> if c = CHR ''-'' \<or> c = CHR ''+'' then rest else unspaced);
          digits = takeWhile isdigit unsigned;
          magnitude = decimal_value 0 digits;
          n = (if negative then - magnitude else magnitude)
      in if digits = [] then None
         else Some (if n < - (2 ^ 63) then - (2 ^ 63) else if n > 2 ^ 63 - 1 then 2 ^ 63 - 1 else n))"

definition ishexdigit :: "char \<Rightarrow> bool" where
  "ishexdigit c =
     (isdigit c \<or> ((65::nat) \<le> of_char c \<and> of_char c \<le> (70::nat))
                \<or> ((97::nat) \<le> of_char c \<and> of_char c \<le> (102::nat)))"

definition hexdigit_value :: "char \<Rightarrow> int" where
  "hexdigit_value c =
     (if isdigit c then int (of_char c) - 48
      else if of_char c \<le> (70::nat) then int (of_char c) - 55
      else int (of_char c) - 87)"

text \<open>
  \<open>sscanf(hexString, "%02x", &decodedEscape)\<close> for the two bytes of \<open>hexString\<close>,
  neither of them NUL, as the C library of the program's platform (glibc) converts them:
  white space is skipped, then at most two bytes are taken, a sign and the hexadecimal
  digits after it; \<open>None\<close> when no digit is among them. Of \<open>0x\<close> the digit \<open>0\<close> is
  converted, to 0.
\<close>

definition sscanf_02x :: "char \<Rightarrow> char \<Rightarrow> int option" where
  "sscanf_02x firstDigit secondDigit =
     (if isspace firstDigit then
        (if ishexdigit secondDigit then Some (hexdigit_value secondDigit) else None)
      else if firstDigit = CHR ''+'' then
        (if ishexdigit secondDigit then Some (hexdigit_value secondDigit) else None)
      else if firstDigit = CHR ''-'' then
        (if ishexdigit secondDigit then Some (- hexdigit_value secondDigit) else None)
      else if ishexdigit firstDigit then
        (if ishexdigit secondDigit
         then Some (hexdigit_value firstDigit * 16 + hexdigit_value secondDigit)
         else Some (hexdigit_value firstDigit))
      else None)"

subsection \<open>URLDecode (lines 382-385, 405-409, 562-619)\<close>

datatype URLDecodeType = URLDecodeTypeWholeURL | URLDecodeTypeParameter

datatype URLDecodeState =
    URLDecodeStateNormal
  | URLDecodeStatePercentFirstDigit
  | URLDecodeStatePercentSecondDigit

text \<open>
  The \<open>while (1)\<close> loop with its three exits; \<open>encoded\<close> is the C string still to be
  read, \<open>decoded\<close> the array written to. Every exit is followed by
  \<open>decoded[deci] = '\0'\<close>.
\<close>

fun URLDecode_loop ::
  "URLDecodeType \<Rightarrow> nat \<Rightarrow> string \<Rightarrow> string \<Rightarrow> nat \<Rightarrow> URLDecodeState \<Rightarrow> char \<Rightarrow> fault + string" where
  "URLDecode_loop type decodedCapacity [] decoded deci st firstDigit = store_at decoded deci NUL"
| "URLDecode_loop type decodedCapacity (c # encoded) decoded deci st firstDigit =
     (if deci \<ge> size_t (decodedCapacity + 2 ^ 64 - 1) then store_at decoded deci NUL
      else if c = CHR ''&'' \<and> type = URLDecodeTypeParameter then store_at decoded deci NUL
      else
        (case st of
           URLDecodeStateNormal \<Rightarrow>
             (if c = CHR ''%'' then
                URLDecode_loop type decodedCapacity encoded decoded deci
                  URLDecodeStatePercentFirstDigit firstDigit
              else if c = CHR ''+'' then
                (case store_at decoded deci (CHR '' '') of
                   Inl f \<Rightarrow> Inl f
                 | Inr decoded' \<Rightarrow>
                     URLDecode_loop type decodedCapacity encoded decoded' (deci + 1)
                       URLDecodeStateNormal firstDigit)
              else
                (case store_at decoded deci c of
                   Inl f \<Rightarrow> Inl f
                 | Inr decoded' \<Rightarrow>
                     URLDecode_loop type decodedCapacity encoded decoded' (deci + 1)
                       URLDecodeStateNormal firstDigit))
         | URLDecodeStatePercentFirstDigit \<Rightarrow>
             URLDecode_loop type decodedCapacity encoded decoded deci
               URLDecodeStatePercentSecondDigit c
         | URLDecodeStatePercentSecondDigit \<Rightarrow>
             (case sscanf_02x firstDigit c of
                Some decodedEscape \<Rightarrow>
                  (case store_at decoded deci (char_of (nat (decodedEscape mod 256))) of
                     Inl f \<Rightarrow> Inl f
                   | Inr decoded' \<Rightarrow>
                       URLDecode_loop type decodedCapacity encoded decoded' (deci + 1)
                         URLDecodeStateNormal firstDigit)
              | None \<Rightarrow>
                  URLDecode_loop type decodedCapacity encoded decoded deci
                    URLDecodeStateNormal firstDigit)))"

definition URLDecode :: "string \<Rightarrow> string \<Rightarrow> nat \<Rightarrow> URLDecodeType \<Rightarrow> fault + string" where
  "URLDecode encoded decoded decodedCapacity type =
     URLDecode_loop type decodedCapacity encoded decoded 0 URLDecodeStateNormal NUL"

subsection \<open>headerInRequest (lines 389-396)\<close>

function headerInRequest_loop :: "string \<Rightarrow> Request \<Rightarrow> nat \<Rightarrow> fault + Header option" where
  "headerInRequest_loop headerName request i =
     (if i < headersCount request then
        (case load_at (headers request) i of
           Inl f \<Rightarrow> Inl f
         | Inr header \<Rightarrow>
             (case ps_contents (name header) of
                None \<Rightarrow> Inl NullPointerDereference
              | Some contents \<Rightarrow>
                  (case cstring_at (headersStringPool request) contents of
                     Inl f \<Rightarrow> Inl f
                   | Inr text \<Rightarrow>
                       if strcasecmp_is_0 text headerName then Inr (Some header)
                       else headerInRequest_loop headerName request (i + 1))))
      else Inr None)"
  by pat_completeness auto
termination
  by (relation "measure (\<lambda>(headerName, request, i). headersCount request - i)") auto

definition headerInRequest :: "string \<Rightarrow> Request \<Rightarrow> fault + Header option" where
  "headerInRequest headerName request = headerInRequest_loop headerName request 0"

subsection \<open>Pool strings (lines 815-845)\<close>

text \<open>
  The two functions get a pointer to a pool string of the request they also get: to the
  name or to the value of one of its headers.
\<close>

datatype PoolStringRef = NameOfHeader nat | ValueOfHeader nat

definition poolString_load :: "Request \<Rightarrow> PoolStringRef \<Rightarrow> fault + PoolString" where
  "poolString_load request ref =
     (case ref of
        NameOfHeader k \<Rightarrow>
          (case load_at (headers request) k of Inl f \<Rightarrow> Inl f | Inr header \<Rightarrow> Inr (name header))
      | ValueOfHeader k \<Rightarrow>
          (case load_at (headers request) k of Inl f \<Rightarrow> Inl f | Inr header \<Rightarrow> Inr (value header)))"

definition poolString_store :: "Request \<Rightarrow> PoolStringRef \<Rightarrow> PoolString \<Rightarrow> fault + Request" where
  "poolString_store request ref poolString =
     (case ref of
        NameOfHeader k \<Rightarrow>
          (case load_at (headers request) k of
             Inl f \<Rightarrow> Inl f
           | Inr header \<Rightarrow>
               Inr (request\<lparr>headers := (headers request)[k := header\<lparr>name := poolString\<rparr>]\<rparr>))
      | ValueOfHeader k \<Rightarrow>
          (case load_at (headers request) k of
             Inl f \<Rightarrow> Inl f
           | Inr header \<Rightarrow>
               Inr (request\<lparr>headers := (headers request)[k := header\<lparr>value := poolString\<rparr>]\<rparr>)))"

definition poolStringStartNewString :: "PoolStringRef \<Rightarrow> Request \<Rightarrow> fault + Request" where
  "poolStringStartNewString poolString request =
     (if 0 = headersStringPoolOffset request then
        poolString_store request poolString \<lparr>ps_contents = Some 0, ps_length = 0\<rparr>
      else if headersStringPoolOffset request \<ge> REQUEST_HEADERS_MAX_MEMORY - 1 then
        (case poolString_store request poolString \<lparr>ps_contents = None, ps_length = 0\<rparr> of
           Inl f \<Rightarrow> Inl f
         | Inr request' \<Rightarrow>
             Inr (request'\<lparr>warnings := (warnings request')\<lparr>headersStringPoolExhausted := True\<rparr>\<rparr>))
      else
        poolString_store
          (request\<lparr>headersStringPoolOffset := headersStringPoolOffset request + 1\<rparr>)
          poolString
          \<lparr>ps_contents = Some (headersStringPoolOffset request + 1), ps_length = 0\<rparr>)"

text \<open>
  \<open>sizeof('\0')\<close>: in C a character constant has type \<open>int\<close>, of 4 bytes on the
  platforms of the server.
\<close>

abbreviation (input) sizeof_character_constant :: nat where "sizeof_character_constant \<equiv> 4"

definition poolStringAppendChar :: "Request \<Rightarrow> PoolStringRef \<Rightarrow> char \<Rightarrow> fault + Request" where
  "poolStringAppendChar request string c =
     (if headersStringPoolOffset request
           \<ge> REQUEST_HEADERS_MAX_MEMORY - 1 - sizeof_character_constant then
        Inr (request\<lparr>warnings := (warnings request)\<lparr>headersStringPoolExhausted := True\<rparr>\<rparr>)
      else
        (case poolString_load request string of
           Inl f \<Rightarrow> Inl f
         | Inr poolString \<Rightarrow>
             (case ps_contents poolString of
                None \<Rightarrow> Inl NullPointerDereference
              | Some contents \<Rightarrow>
                  (case store_at (headersStringPool request) (contents + ps_length poolString) c of
                     Inl f \<Rightarrow> Inl f
                   | Inr pool \<Rightarrow>
                       poolString_store
                         (request\<lparr>headersStringPool := pool,
                                  headersStringPoolOffset := headersStringPoolOffset request + 1\<rparr>)
                         string
                         (poolString\<lparr>ps_length := ps_length poolString + 1\<rparr>)))))"

subsection \<open>requestParse (lines 1017-1155)\<close>

text \<open>
  One definition per \<open>case\<close> of the \<open>switch\<close>. Each gives the request after the byte
  \<open>c\<close> and whether \<open>i--\<close> was executed, so that the byte is read again.
\<close>

definition requestParse_Method :: "Request \<Rightarrow> char \<Rightarrow> fault + (Request \<times> bool)" where
  "requestParse_Method request c =
     (if c = CHR '' '' then Inr (request\<lparr>state := RequestParseStatePath\<rparr>, False)
      else if methodLength request < 64 - 1 then
        (case store_at (method request) (methodLength request) c of
           Inl f \<Rightarrow> Inl f
         | Inr method' \<Rightarrow>
             Inr (request\<lparr>method := method', methodLength := methodLength request + 1\<rparr>, False))
      else Inr (request\<lparr>warnings := (warnings request)\<lparr>methodTruncated := True\<rparr>\<rparr>, False))"

definition requestParse_Path :: "Request \<Rightarrow> char \<Rightarrow> fault + (Request \<times> bool)" where
  "requestParse_Path request c =
     (if c = CHR '' '' then
        (case cstring_at (path request) 0 of
           Inl f \<Rightarrow> Inl f
         | Inr encoded \<Rightarrow>
             (case URLDecode encoded (pathDecoded request) 1024 URLDecodeTypeWholeURL of
                Inl f \<Rightarrow> Inl f
              | Inr pathDecoded' \<Rightarrow>
                  Inr (request\<lparr>pathDecoded := pathDecoded', state := RequestParseStateVersion\<rparr>,
                       False)))
      else if pathLength request < 1024 - 1 then
        (case store_at (path request) (pathLength request) c of
           Inl f \<Rightarrow> Inl f
         | Inr path' \<Rightarrow>
             Inr (request\<lparr>path := path', pathLength := pathLength request + 1\<rparr>, False))
      else Inr (request\<lparr>warnings := (warnings request)\<lparr>pathTruncated := True\<rparr>\<rparr>, False))"

definition requestParse_Version :: "Request \<Rightarrow> char \<Rightarrow> fault + (Request \<times> bool)" where
  "requestParse_Version request c =
     (if c = CR then Inr (request\<lparr>state := RequestParseStateCR\<rparr>, False)
      else if versionLength request < 16 - 1 then
        (case store_at (version request) (versionLength request) c of
           Inl f \<Rightarrow> Inl f
         | Inr version' \<Rightarrow>
             Inr (request\<lparr>version := version', versionLength := versionLength request + 1\<rparr>, False))
      else Inr (request\<lparr>warnings := (warnings request)\<lparr>versionTruncated := True\<rparr>\<rparr>, False))"

definition requestParse_HeaderName :: "Request \<Rightarrow> char \<Rightarrow> fault + (Request \<times> bool)" where
  "requestParse_HeaderName request c =
     (if c = CHR '':'' then Inr (request\<lparr>state := RequestParseStateHeaderValue\<rparr>, False)
      else if c = CR then Inr (request\<lparr>state := RequestParseStateCR\<rparr>, False)
      else if headersCount request < REQUEST_MAX_HEADERS then
        (case load_at (headers request) (headersCount request) of
           Inl f \<Rightarrow> Inl f
         | Inr header \<Rightarrow>
             (case (if ps_contents (name header) = None
                    then poolStringStartNewString (NameOfHeader (headersCount request)) request
                    else Inr request) of
                Inl f \<Rightarrow> Inl f
              | Inr request1 \<Rightarrow>
                  (case poolStringAppendChar request1 (NameOfHeader (headersCount request)) c of
                     Inl f \<Rightarrow> Inl f
                   | Inr request2 \<Rightarrow> Inr (request2, False))))
      else Inr (request\<lparr>warnings := (warnings request)\<lparr>headersTooManyDropped := True\<rparr>\<rparr>, False))"

definition requestParse_HeaderValue :: "Request \<Rightarrow> char \<Rightarrow> fault + (Request \<times> bool)" where
  "requestParse_HeaderValue request c =
     (case (if c = CHR '' '' \<and> headersCount request < REQUEST_MAX_HEADERS
            then (case load_at (headers request) (headersCount request) of
                    Inl f \<Rightarrow> Inl f
                  | Inr header \<Rightarrow> Inr (ps_length (value header) = 0))
            else Inr False) of
        Inl f \<Rightarrow> Inl f
      | Inr True \<Rightarrow> Inr (request, False)
      | Inr False \<Rightarrow>
          if c = CR then
            (if headersCount request < REQUEST_MAX_HEADERS then
               (case load_at (headers request) (headersCount request) of
                  Inl f \<Rightarrow> Inl f
                | Inr header \<Rightarrow>
                    if ps_length (value header) > 0
                    then Inr (request\<lparr>headersCount := headersCount request + 1,
                                      state := RequestParseStateCR\<rparr>, False)
                    else Inr (request\<lparr>state := RequestParseStateCR\<rparr>, False))
             else Inr (request\<lparr>state := RequestParseStateCR\<rparr>, False))
          else if headersCount request < REQUEST_MAX_HEADERS then
            (case load_at (headers request) (headersCount request) of
               Inl f \<Rightarrow> Inl f
             | Inr header \<Rightarrow>
                 (case (if ps_contents (value header) = None
                        then poolStringStartNewString (ValueOfHeader (headersCount request)) request
                        else Inr request) of
                    Inl f \<Rightarrow> Inl f
                  | Inr request1 \<Rightarrow>
                      (case poolStringAppendChar request1 (ValueOfHeader (headersCount request)) c of
                         Inl f \<Rightarrow> Inl f
                       | Inr request2 \<Rightarrow> Inr (request2, False))))
          else Inr (request, False))"

definition requestParse_CR :: "Request \<Rightarrow> char \<Rightarrow> fault + (Request \<times> bool)" where
  "requestParse_CR request c =
     (if c = LF then Inr (request\<lparr>state := RequestParseStateCRLF\<rparr>, False)
      else Inr (request\<lparr>state := RequestParseStateHeaderName\<rparr>, False))"

definition requestParse_CRLF :: "Request \<Rightarrow> char \<Rightarrow> fault + (Request \<times> bool)" where
  "requestParse_CRLF request c =
     (if c = CR then Inr (request\<lparr>state := RequestParseStateCRLFCR\<rparr>, False)
      else Inr (request\<lparr>state := RequestParseStateHeaderName\<rparr>, True))"

text \<open>
  In the case \<open>RequestParseStateCRLFCR\<close>, \<open>sscanf\<close> reads the C string the value of
  the header points to; \<open>calloc(1, contentLength + 1)\<close> gives a block of zeroes.
\<close>

definition requestParse_CRLFCR :: "Request \<Rightarrow> char \<Rightarrow> fault + (Request \<times> bool)" where
  "requestParse_CRLFCR request c =
     (if c = LF then
        (case headerInRequest ''Content-Length'' request of
           Inl f \<Rightarrow> Inl f
         | Inr None \<Rightarrow> Inr (request\<lparr>state := RequestParseStateDone\<rparr>, False)
         | Inr (Some contentLengthHeader) \<Rightarrow>
             (case ps_contents (value contentLengthHeader) of
                None \<Rightarrow> Inl NullPointerDereference
              | Some contents \<Rightarrow>
                  (case cstring_at (headersStringPool request) contents of
                     Inl f \<Rightarrow> Inl f
                   | Inr text \<Rightarrow>
                       (case sscanf_ld text of
                          None \<Rightarrow> Inr (request\<lparr>state := RequestParseStateDone\<rparr>, False)
                        | Some scanned \<Rightarrow>
                            (let contentLength1 =
                                   (if scanned > REQUEST_MAX_BODY_LENGTH
                                    then REQUEST_MAX_BODY_LENGTH else scanned);
                                 contentLength =
                                   (if contentLength1 < 0 then 0 else contentLength1);
                                 contents' =
                                   (if contentLength > 0
                                    then Some (replicate (nat contentLength + 1) NUL)
                                    else hs_contents (body request))
                             in Inr (request\<lparr>body := \<lparr>hs_contents = contents',
                                                       hs_length = 0,
                                                       hs_capacity = nat contentLength\<rparr>,
                                              state := RequestParseStateBody\<rparr>, False))))))
      else Inr (request\<lparr>state := RequestParseStateHeaderName\<rparr>, False))"

definition requestParse_Body :: "Request \<Rightarrow> char \<Rightarrow> fault + (Request \<times> bool)" where
  "requestParse_Body request c =
     (case store_byte (hs_contents (body request)) (hs_length (body request)) c of
        Inl f \<Rightarrow> Inl f
      | Inr block \<Rightarrow>
          (let body' = (body request)\<lparr>hs_contents := Some block,
                                      hs_length := size_t (hs_length (body request) + 1)\<rparr>
           in if hs_length body' = hs_capacity body'
              then Inr (request\<lparr>body := body', state := RequestParseStateDone\<rparr>, False)
              else Inr (request\<lparr>body := body'\<rparr>, False)))"

definition requestParse_Done :: "Request \<Rightarrow> char \<Rightarrow> fault + (Request \<times> bool)" where
  "requestParse_Done request c =
     (if hs_contents (body request) \<noteq> None
      then Inr (request\<lparr>warnings := (warnings request)\<lparr>bodyTruncated := True\<rparr>\<rparr>, False)
      else Inr (request, False))"

definition requestParse_step :: "Request \<Rightarrow> char \<Rightarrow> fault + (Request \<times> bool)" where
  "requestParse_step request c =
     (case state request of
        RequestParseStateMethod \<Rightarrow> requestParse_Method request c
      | RequestParseStatePath \<Rightarrow> requestParse_Path request c
      | RequestParseStateVersion \<Rightarrow> requestParse_Version request c
      | RequestParseStateHeaderName \<Rightarrow> requestParse_HeaderName request c
      | RequestParseStateHeaderValue \<Rightarrow> requestParse_HeaderValue request c
      | RequestParseStateCR \<Rightarrow> requestParse_CR request c
      | RequestParseStateCRLF \<Rightarrow> requestParse_CRLF request c
      | RequestParseStateCRLFCR \<Rightarrow> requestParse_CRLFCR request c
      | RequestParseStateBody \<Rightarrow> requestParse_Body request c
      | RequestParseStateDone \<Rightarrow> requestParse_Done request c)"

text \<open>
  The \<open>for\<close> loop. After \<open>i--\<close> the increment of the loop gives \<open>i\<close> its value back
  (also when \<open>i\<close> is 0: \<open>size_t\<close> wraps around and back), and the same byte is read in
  the state the case has set. \<open>requestFragmentLength\<close> is the length of the fragment.
\<close>

function requestParse_loop :: "Request \<Rightarrow> string \<Rightarrow> nat \<Rightarrow> fault + Request" where
  "requestParse_loop request requestFragment i =
     (if i < length requestFragment then
        (case requestParse_step request (requestFragment ! i) of
           Inl f \<Rightarrow> Inl f
         | Inr (request', replay) \<Rightarrow>
             requestParse_loop request' requestFragment (if replay then i else i + 1))
      else Inr request)"
  by pat_completeness auto
termination
proof (relation "measure (\<lambda>(request, requestFragment, i).
         2 * (length requestFragment - i)
         + (if state request = RequestParseStateCRLF then 1 else 0))",
       goal_cases)
  case 1
  show ?case by simp
next
  case (2 request requestFragment i x2 request' replay)
  show ?case
  proof (cases replay)
    case True
    with 2 have "requestParse_step request (requestFragment ! i) = Inr (request', True)"
      by simp
    then have "state request = RequestParseStateCRLF
             \<and> state request' = RequestParseStateHeaderName"
      by (cases "state request")
         (auto simp: requestParse_step_def requestParse_Method_def requestParse_Path_def
            requestParse_Version_def requestParse_HeaderName_def requestParse_HeaderValue_def
            requestParse_CR_def requestParse_CRLF_def requestParse_CRLFCR_def
            requestParse_Body_def requestParse_Done_def Let_def
            split: if_splits sum.splits option.splits bool.splits)
    with True show ?thesis by simp
  next
    case False
    with 2 show ?thesis by auto
  qed
qed

declare requestParse_loop.simps [simp del]

definition requestParse :: "Request \<Rightarrow> string \<Rightarrow> fault + Request" where
  "requestParse request requestFragment = requestParse_loop request requestFragment 0"

text \<open>
  The caller (\<open>connectionHandlerThread\<close>) passes what each \<open>recv\<close> delivers: one call
  of \<open>requestParse\<close> per chunk, on the same request.
\<close>

fun requestParse_chunks :: "Request \<Rightarrow> string list \<Rightarrow> fault + Request" where
  "requestParse_chunks request [] = Inr request"
| "requestParse_chunks request (chunk # chunks) =
     (case requestParse request chunk of
        Inl f \<Rightarrow> Inl f
      | Inr request' \<Rightarrow> requestParse_chunks request' chunks)"

subsection \<open>What parsing keeps true of a request\<close>

text \<open>
  A pool string lies inside the used part of the pool: it ends at or before
  \<open>headersStringPoolOffset\<close>. The arrays of the request have their sizes, the last
  byte of \<open>path\<close> is NUL, and the body is untouched before the state \<open>Body\<close>.
\<close>

definition poolString_inside :: "nat \<Rightarrow> PoolString \<Rightarrow> bool" where
  "poolString_inside offset poolString =
     (case ps_contents poolString of
        None \<Rightarrow> True
      | Some contents \<Rightarrow> contents + ps_length poolString \<le> offset)"

definition headers_inside :: "nat \<Rightarrow> Header list \<Rightarrow> bool" where
  "headers_inside offset headers' =
     (\<forall>k < length headers'.
        poolString_inside offset (name (headers' ! k))
      \<and> poolString_inside offset (value (headers' ! k)))"

definition request_invariant :: "Request \<Rightarrow> bool" where
  "request_invariant request =
     (length (method request) = 64 \<and> length (version request) = 16
      \<and> length (path request) = 1024 \<and> path request ! 1023 = NUL
      \<and> length (pathDecoded request) = 1024
      \<and> length (headers request) = REQUEST_MAX_HEADERS
      \<and> length (headersStringPool request) = REQUEST_HEADERS_MAX_MEMORY
      \<and> headersStringPoolOffset request \<le> REQUEST_HEADERS_MAX_MEMORY - 1
      \<and> headers_inside (headersStringPoolOffset request) (headers request)
      \<and> (state request = RequestParseStateBody \<or> state request = RequestParseStateDone
           \<or> body request = \<lparr>hs_contents = None, hs_length = 0, hs_capacity = 0\<rparr>))"

text \<open>The pointer to a pool string of the header \<open>k\<close>, read and written.\<close>

definition headerOf :: "PoolStringRef \<Rightarrow> nat" where
  "headerOf poolString = (case poolString of NameOfHeader k \<Rightarrow> k | ValueOfHeader k \<Rightarrow> k)"

definition poolString_get :: "PoolStringRef \<Rightarrow> Header \<Rightarrow> PoolString" where
  "poolString_get poolString header =
     (case poolString of NameOfHeader k \<Rightarrow> name header | ValueOfHeader k \<Rightarrow> value header)"

definition poolString_put :: "PoolStringRef \<Rightarrow> PoolString \<Rightarrow> Header \<Rightarrow> Header" where
  "poolString_put poolString string header =
     (case poolString of
        NameOfHeader k \<Rightarrow> header\<lparr>name := string\<rparr>
      | ValueOfHeader k \<Rightarrow> header\<lparr>value := string\<rparr>)"

subsection \<open>The header block of a request\<close>

text \<open>
  The C string that a pool string of a request points to, as \<open>strcasecmp\<close> and
  \<open>sscanf\<close> read it; \<open>None\<close> for a NULL pointer, and for a string with no NUL up
  to the end of the pool.
\<close>

definition poolString_text :: "Request \<Rightarrow> PoolString \<Rightarrow> string option" where
  "poolString_text request poolString =
     (case ps_contents poolString of
        None \<Rightarrow> None
      | Some contents \<Rightarrow>
          (case cstring_at (headersStringPool request) contents of
             Inl f \<Rightarrow> None
           | Inr text \<Rightarrow> Some text))"

text \<open>
  The header \<open>k\<close> of a request has a name, and \<open>strcasecmp\<close> finds that name equal to
  \<open>headerName\<close> (\<open>headerNamed\<close>) or different from it (\<open>headerNamedOtherwise\<close>).
  Neither holds of a header whose \<open>name.contents\<close> is NULL.
\<close>

definition headerNamed :: "Request \<Rightarrow> nat \<Rightarrow> string \<Rightarrow> bool" where
  "headerNamed request k headerName =
     (case poolString_text request (name (headers request ! k)) of
        None \<Rightarrow> False
      | Some text \<Rightarrow> strcasecmp_is_0 text headerName)"

definition headerNamedOtherwise :: "Request \<Rightarrow> nat \<Rightarrow> string \<Rightarrow> bool" where
  "headerNamedOtherwise request k headerName =
     (case poolString_text request (name (headers request ! k)) of
        None \<Rightarrow> False
      | Some text \<Rightarrow> \<not> strcasecmp_is_0 text headerName)"

text \<open>
  The headers that have been committed (those below \<open>headersCount\<close>) have a value;
  the last byte of the pool is never written.
\<close>

definition headers_committed :: "Request \<Rightarrow> bool" where
  "headers_committed request =
     (headersCount request \<le> REQUEST_MAX_HEADERS
      \<and> headersStringPool request ! (REQUEST_HEADERS_MAX_MEMORY - 1) = NUL
      \<and> (\<forall>k < length (headers request).
            ps_contents (value (headers request ! k)) = None
              \<longrightarrow> ps_length (value (headers request ! k)) = 0)
      \<and> (\<forall>k < headersCount request. ps_contents (value (headers request ! k)) \<noteq> None))"

section \<open>Properties\<close>

subsection \<open>Heap strings\<close>

lemma size_t_id: "n < 2 ^ 64 \<Longrightarrow> size_t n = n"
  by (simp add: size_t_def)

lemma nextAllocationSize_loop_power:
  "k \<le> 63 \<Longrightarrow> required \<le> 2 ^ 63 \<Longrightarrow>
     \<exists>q. heapStringNextAllocationSize_loop (2 ^ k) required = Some q
         \<and> required \<le> q \<and> 2 ^ k \<le> q \<and> q \<le> 2 ^ 63"
proof (induction "63 - k" arbitrary: k)
  case 0
  then have k: "k = 63" by simp
  show ?case
    using 0(3) unfolding k
    by (subst heapStringNextAllocationSize_loop.simps) simp
next
  case (Suc d)
  then have k: "k < 63" by simp
  show ?case
  proof (cases "(2::nat) ^ k < required")
    case False
    have "(2::nat) ^ k \<le> 2 ^ 63" using k by (intro power_increasing) simp_all
    with False show ?thesis
      by (subst heapStringNextAllocationSize_loop.simps) simp
  next
    case True
    have "(2::nat) ^ Suc k \<le> 2 ^ 63" using k by (intro power_increasing) simp_all
    then have wrap: "size_t (2 ^ k * 2) = 2 ^ Suc k"
      by (simp add: size_t_def mult.commute)
    from Suc(2) k have d: "d = 63 - Suc k" by simp
    from Suc(1) [OF d _ Suc(4)] k obtain q where
      q: "heapStringNextAllocationSize_loop (2 ^ Suc k) required = Some q"
         "required \<le> q" "2 ^ Suc k \<le> q" "q \<le> 2 ^ 63"
      by auto
    have "(2::nat) ^ k \<le> 2 ^ Suc k" by simp
    with q(3) have "(2::nat) ^ k \<le> q" by linarith
    with q True wrap show ?thesis
      by (subst heapStringNextAllocationSize_loop.simps) simp
  qed
qed

lemma nextAllocationSize_ok:
  assumes "required \<le> 2 ^ 63"
  shows "\<exists>q. heapStringNextAllocationSize required = Some q \<and> required \<le> q \<and> 256 \<le> q
           \<and> q \<le> 2 ^ 63"
proof -
  from nextAllocationSize_loop_power [of 8 required] assms
  show ?thesis by (auto simp: heapStringNextAllocationSize_def)
qed

lemma length_realloc_block: "length (realloc_block contents n) = n"
  by (auto simp: realloc_block_def split: option.splits)

lemma reallocIfNeeded_ok:
  assumes "heapString_valid string" "hs_length string < m" "m \<le> 2 ^ 63"
  shows "\<exists>string' block.
           heapStringReallocIfNeeded string m = Inr string'
         \<and> hs_length string' = hs_length string
         \<and> m \<le> hs_capacity string'
         \<and> hs_contents string' = Some block
         \<and> hs_capacity string' \<le> length block
         \<and> length block < 2 ^ 64"
proof (cases "m \<le> hs_capacity string")
  case True
  with assms(2) have "0 < hs_capacity string" by simp
  with assms(1) obtain block where "hs_contents string = Some block"
    "hs_capacity string \<le> length block" "length block < 2 ^ 64"
    by (auto simp: heapString_valid_def split: option.splits)
  with True show ?thesis
    by (simp add: heapStringReallocIfNeeded_def realloc_block_def)
next
  case False
  from nextAllocationSize_ok [OF assms(3)] obtain q where
    q: "heapStringNextAllocationSize m = Some q" "m \<le> q" "256 \<le> q" "q \<le> 2 ^ 63" by auto
  with False assms(2) show ?thesis
    by (simp add: heapStringReallocIfNeeded_def length_realloc_block)
qed

lemma appendChar_terminated:
  assumes "heapString_valid string" "hs_length string + 2 \<le> 2 ^ 63"
  shows "heapString_terminated (heapStringAppendChar string c)"
proof -
  have m: "size_t (hs_length string + 2) = hs_length string + 2"
    using assms(2) by (intro size_t_id) simp
  from reallocIfNeeded_ok [OF assms(1), of "hs_length string + 2"] assms(2)
  obtain string' block where r:
    "heapStringReallocIfNeeded string (hs_length string + 2) = Inr string'"
    "hs_length string' = hs_length string"
    "hs_length string + 2 \<le> hs_capacity string'"
    "hs_contents string' = Some block"
    "hs_capacity string' \<le> length block" "length block < 2 ^ 64"
    by auto
  with assms(2) show ?thesis
    unfolding heapStringAppendChar_def m
    by (simp add: size_t_id store_byte_def heapString_terminated_def)
qed

lemma appendString_terminated:
  assumes "heapString_valid string" "hs_length string + length str + 1 \<le> 2 ^ 63" "str \<noteq> []"
  shows "heapString_terminated (heapStringAppendString string str)"
proof -
  have m: "size_t (length str + hs_length string + 1) = hs_length string + length str + 1"
    using assms(2) by (simp add: size_t_id)
  from assms(3) have pos: "0 < length str" by simp
  from reallocIfNeeded_ok [OF assms(1), of "hs_length string + length str + 1"] assms(2)
  obtain string' block where r:
    "heapStringReallocIfNeeded string (hs_length string + length str + 1) = Inr string'"
    "hs_length string' = hs_length string"
    "hs_length string + length str + 1 \<le> hs_capacity string'"
    "hs_contents string' = Some block"
    "hs_capacity string' \<le> length block" "length block < 2 ^ 64"
    by auto
  with assms(2,3) show ?thesis
    unfolding heapStringAppendString_def m Let_def
    by (simp add: size_t_id store_byte_def store_bytes_def heapString_terminated_def)
qed

lemma appendHeapString_terminated:
  assumes "heapString_valid target" "hs_length target + hs_length source + 1 \<le> 2 ^ 63"
    and "load_bytes (hs_contents source) (hs_length source) = Inr bytes"
  shows "heapString_terminated (heapStringAppendHeapString target source)"
proof -
  have m: "size_t (hs_length target + hs_length source + 1) = hs_length target + hs_length source + 1"
    using assms(2) by (simp add: size_t_id)
  have len: "length bytes = hs_length source"
    using assms(3) by (auto simp: load_bytes_def split: if_splits option.splits)
  from reallocIfNeeded_ok [OF assms(1), of "hs_length target + hs_length source + 1"] assms(2)
  obtain string' block where r:
    "heapStringReallocIfNeeded target (hs_length target + hs_length source + 1) = Inr string'"
    "hs_length string' = hs_length target"
    "hs_length target + hs_length source + 1 \<le> hs_capacity string'"
    "hs_contents string' = Some block"
    "hs_capacity string' \<le> length block" "length block < 2 ^ 64"
    by auto
  with assms(2,3) len show ?thesis
    unfolding heapStringAppendHeapString_def m Let_def
    by (simp add: size_t_id store_byte_def store_bytes_def heapString_terminated_def)
qed

lemma vsnprintf_returns_length:
  assumes a: "length formatted \<le> INT_MAX"
  shows "size_t_of_int (vsnprintf_returns formatted) = length formatted"
proof -
  have "(2::nat) ^ 31 - 1 < 2 ^ 64" by simp
  with a have "length formatted < 2 ^ 64" by (rule le_less_trans)
  then have "int (length formatted) < int (2 ^ 64)" by (simp only: of_nat_less_iff)
  then have b: "int (length formatted) < 2 ^ 64" by (simp only: of_nat_power of_nat_numeral)
  have c: "0 \<le> int (length formatted)" by simp
  from c b have "int (length formatted) mod 2 ^ 64 = int (length formatted)"
    by (rule mod_pos_pos_trivial)
  then have "size_t_of_int (int (length formatted)) = length formatted"
    unfolding size_t_of_int_def by (simp only: nat_int)
  moreover from a have "vsnprintf_returns formatted = int (length formatted)"
    unfolding vsnprintf_returns_def by (simp only: if_True)
  ultimately show ?thesis by (simp only:)
qed

lemma appendFormatV_terminated:
  assumes "heapString_valid string" "hs_length string + length formatted + 1 \<le> 2 ^ 63"
    and "length formatted \<le> INT_MAX"
  shows "heapString_terminated (heapStringAppendFormatV string formatted)"
proof -
  note al = vsnprintf_returns_length [OF assms(3)]
  have m: "size_t (hs_length string + length formatted + 1) = hs_length string + length formatted + 1"
    using assms(2) by (simp add: size_t_id)
  from reallocIfNeeded_ok [OF assms(1), of "hs_length string + length formatted + 1"] assms(2)
  obtain string' block where r:
    "heapStringReallocIfNeeded string (hs_length string + length formatted + 1) = Inr string'"
    "hs_length string' = hs_length string"
    "hs_length string + length formatted + 1 \<le> hs_capacity string'"
    "hs_contents string' = Some block"
    "hs_capacity string' \<le> length block" "length block < 2 ^ 64"
    by auto
  from r have cap: "hs_capacity string' < 2 ^ 64" by simp
  have "hs_capacity string' + 2 ^ 64 - hs_length string
          = (hs_capacity string' - hs_length string) + 1 * 2 ^ 64"
    using r(3) by simp
  then have "(hs_capacity string' + 2 ^ 64 - hs_length string) mod 2 ^ 64
          = (hs_capacity string' - hs_length string) mod 2 ^ 64"
    by (simp only: mod_mult_self1)
  with cap have room:
    "size_t (hs_capacity string' + 2 ^ 64 - hs_length string') = hs_capacity string' - hs_length string"
    by (simp add: size_t_def r(2))
  from r(3) have room_pos: "length formatted < hs_capacity string' - hs_length string" by simp
  from r room room_pos assms(2) show ?thesis
    unfolding heapStringAppendFormatV_def al m Let_def
    by (auto simp add: size_t_id store_byte_def store_bytes_def heapString_terminated_def)
qed

text \<open>
  C8, as the code has it. For a heap string as the program builds them, of a size the
  address space allows, and a formatted text of at most \<open>INT_MAX\<close> bytes (the lengths
  that \<open>vsnprintf\<close> can return): after \<open>heapStringAppendChar\<close>,
  \<open>heapStringAppendFormatV\<close>, \<open>heapStringAppendFormat\<close>,
  \<open>heapStringAppendHeapString\<close> (whatever is appended, also nothing) and after
  \<open>heapStringAppendString\<close> of a non-empty string, the function has returned,
  \<open>capacity\<close> is above \<open>length\<close>, and the block has a NUL at \<open>length\<close>.
  \<open>heapStringAppendString\<close> of the empty string returns the heap string as it was,
  without any allocation.
\<close>

theorem heapString_append_terminated:
  assumes "heapString_valid string"
    and "hs_length string + length stringToAppend + 2 \<le> 2 ^ 63"
    and "hs_length string + length formatted + 2 \<le> 2 ^ 63"
    and "hs_length string + hs_length source + 2 \<le> 2 ^ 63"
    and "load_bytes (hs_contents source) (hs_length source) = Inr bytes"
    and "length formatted \<le> INT_MAX"
  shows "heapString_terminated (heapStringAppendChar string c)
       \<and> heapString_terminated (heapStringAppendFormatV string formatted)
       \<and> heapString_terminated (heapStringAppendFormat string formatted)
       \<and> heapString_terminated (heapStringAppendHeapString string source)
       \<and> (if stringToAppend = [] then heapStringAppendString string stringToAppend = Inr string
          else heapString_terminated (heapStringAppendString string stringToAppend))"
proof -
  have "heapString_terminated (heapStringAppendChar string c)"
    using assms(1,2) by (intro appendChar_terminated) simp_all
  moreover have "heapString_terminated (heapStringAppendFormatV string formatted)"
    using assms(1,3,6) by (intro appendFormatV_terminated) simp_all
  moreover have "heapString_terminated (heapStringAppendHeapString string source)"
    using assms(1,4,5) by (intro appendHeapString_terminated [where bytes = bytes]) simp_all
  moreover have "heapStringAppendString string [] = Inr string"
    by (simp add: heapStringAppendString_def)
  moreover have "stringToAppend \<noteq> [] \<Longrightarrow>
      heapString_terminated (heapStringAppendString string stringToAppend)"
    using assms(1,2) by (intro appendString_terminated) simp_all
  ultimately show ?thesis
    by (simp add: heapStringAppendFormat_def)
qed

theorem heapString_append_terminated_witness:
  "heapString_valid heapStringInit
   \<and> load_bytes (hs_contents heapStringInit) (hs_length heapStringInit) = Inr []
   \<and> heapString_terminated (heapStringAppendChar heapStringInit (CHR ''X''))
   \<and> heapString_terminated (heapStringAppendFormatV heapStringInit ''Testing format 1'')
   \<and> heapString_terminated (heapStringAppendFormat heapStringInit ''Testing format 1'')
   \<and> heapString_terminated (heapStringAppendHeapString heapStringInit heapStringInit)
   \<and> heapString_terminated (heapStringAppendString heapStringInit '' Part2'')"
proof -
  have v: "heapString_valid heapStringInit"
    by (simp add: heapString_valid_def heapStringInit_def)
  have l: "load_bytes (hs_contents heapStringInit) (hs_length heapStringInit) = Inr []"
    by (simp add: load_bytes_def heapStringInit_def)
  have n: "hs_length heapStringInit = 0"
    by (simp add: heapStringInit_def)
  from heapString_append_terminated
         [OF v _ _ _ l, of "'' Part2''" "''Testing format 1''" "CHR ''X''"] v l n
  show ?thesis by simp
qed

text \<open>
  C8 as it is stated fails for the append of the empty string to a heap string that has
  no block yet: nothing is allocated, so \<open>capacity\<close> and \<open>length\<close> are both 0
  afterwards and there is no byte at \<open>length\<close>.
\<close>

theorem heapStringAppendString_empty_counterexample:
  "heapStringAppendString heapStringInit [] = Inr heapStringInit
   \<and> hs_capacity heapStringInit = hs_length heapStringInit
   \<and> hs_contents heapStringInit = None
   \<and> \<not> heapString_terminated (heapStringAppendString heapStringInit [])"
  by (simp add: heapStringAppendString_def heapStringInit_def heapString_terminated_def)

subsection \<open>Serving a path\<close>

text \<open>The assertions of \<open>testPathEscapesRoot\<close> (lines 1753-1772) hold of the embedding.\<close>

lemma testPathEscapesRoot:
  "pathEscapesDocumentRoot ''../''"
  "pathEscapesDocumentRoot ''/..''"
  "pathEscapesDocumentRoot ''/../''"
  "pathEscapesDocumentRoot ''/..//''"
  "pathEscapesDocumentRoot ''/..///''"
  "pathEscapesDocumentRoot ''./..''"
  "pathEscapesDocumentRoot ''./../''"
  "pathEscapesDocumentRoot ''./..//''"
  "pathEscapesDocumentRoot ''./..///''"
  "pathEscapesDocumentRoot ''./././../''"
  "pathEscapesDocumentRoot ''dir1/dir2/../../../''"
  "\<not> pathEscapesDocumentRoot ''dir1''"
  "\<not> pathEscapesDocumentRoot ''dir1/dir2''"
  "\<not> pathEscapesDocumentRoot ''dir1/dir2/.''"
  "\<not> pathEscapesDocumentRoot ''dir1/dir2/../.''"
  "\<not> pathEscapesDocumentRoot ''dir1/dir2/.././''"
  "\<not> pathEscapesDocumentRoot ''dir1/dir2/../.././''"
  "\<not> pathEscapesDocumentRoot ''dir1/dir2/../../.''"
  by (simp_all add: pathEscapesDocumentRoot_def)

text \<open>
  C1, at the path \<open>../a\<close>: the depth is -1 after the first segment, as the
  specification scans it, and \<open>pathEscapesDocumentRoot\<close> returns false, because it
  compares \<open>subdirDepth\<close> with 0 only once, after the loop. The same holds for a path
  such as \<open>/../../etc/passwd\<close>.
\<close>

theorem pathEscapesDocumentRoot_dip_not_detected:
  "spec_depthGoesNegative ''../a'' \<and> \<not> pathEscapesDocumentRoot ''../a''
   \<and> spec_depthGoesNegative ''/../../etc/passwd''
   \<and> \<not> pathEscapesDocumentRoot ''/../../etc/passwd''"
  by (simp add: spec_depthGoesNegative_def pathEscapesDocumentRoot_def)

lemma heapStringSetToCString_fresh:
  assumes "length cString < 2 ^ 63"
  shows "\<exists>string. heapStringSetToCString heapStringInit cString = Inr string"
proof -
  have v: "heapString_valid heapStringInit"
    by (simp add: heapString_valid_def heapStringInit_def)
  have m: "size_t (length cString + 1) = length cString + 1"
    using assms by (simp add: size_t_id)
  from reallocIfNeeded_ok [OF v, of "length cString + 1"] assms
  obtain string' block where r:
    "heapStringReallocIfNeeded heapStringInit (length cString + 1) = Inr string'"
    "hs_length string' = hs_length heapStringInit"
    "length cString + 1 \<le> hs_capacity string'"
    "hs_contents string' = Some block"
    "hs_capacity string' \<le> length block"
    by (auto simp: heapStringInit_def)
  then show ?thesis
    unfolding heapStringSetToCString_def m Let_def
    by (auto simp: store_byte_def store_bytes_def)
qed

lemma responseAllocHTMLWithStatus_200:
  assumes "length html < 2 ^ 63"
  shows "\<exists>response. responseAllocHTMLWithStatus code' status' html = Inr response
           \<and> code response = 200 \<and> status response = Some ''OK''"
proof -
  have b: "Response.body (responseAlloc 200 (Some ''OK'') (Some ''text/html; charset=UTF-8'') 0)
             = heapStringInit"
    by (simp add: responseAlloc_def heapStringInit_def)
  from heapStringSetToCString_fresh [OF assms] obtain string where
    "heapStringSetToCString heapStringInit html = Inr string" by blast
  then show ?thesis
    by (simp add: responseAllocHTMLWithStatus_def b Let_def) (simp add: responseAlloc_def)
qed

text \<open>
  C2, at the decoded path \<open>../\<close>, which \<open>pathEscapesDocumentRoot\<close> refuses: the
  response that \<open>responseAllocServeFileFromRequestPath\<close> returns has the code 200 and
  the status \<open>OK\<close>, because \<open>responseAllocHTMLWithStatus\<close> passes the constants 200
  and \<open>"OK"\<close> on to \<open>responseAlloc\<close>, not its parameters.
\<close>

theorem responseAllocServeFileFromRequestPath_forbidden_is_200:
  "pathEscapesDocumentRoot ''../''
   \<and> (\<exists>response.
         responseAllocServeFileFromRequestPath serveFromFileSystem ''/../'' ''../'' ''.''
           = Inr response
         \<and> code response = 200 \<and> status response = Some ''OK'')"
proof -
  have e: "pathEscapesDocumentRoot ''../''"
    by (simp add: pathEscapesDocumentRoot_def)
  have "length ''<html><head><title>Forbidden</title></head><body>You are not allowed to access this URL</body></html>'' < (2::nat) ^ 63"
    by simp
  from responseAllocHTMLWithStatus_200 [OF this, of 403 "Some ''Forbidden''"] e
  show ?thesis
    by (simp add: responseAllocServeFileFromRequestPath_def)
qed

subsection \<open>The parser and the chunks it is given\<close>

lemma requestParse_loop_end:
  "length requestFragment \<le> i \<Longrightarrow> requestParse_loop request requestFragment i = Inr request"
  by (simp add: requestParse_loop.simps)

lemma requestParse_loop_shift:
  "requestParse_loop request (xs @ ys) (length xs + j) = requestParse_loop request ys j"
proof (induction request ys j rule: requestParse_loop.induct)
  case (1 request ys j)
  show ?case
  proof (cases "j < length ys")
    case False
    then show ?thesis by (simp add: requestParse_loop_end)
  next
    case True
    show ?thesis
    proof (cases "requestParse_step request (ys ! j)")
      case (Inl f)
      with True show ?thesis
        by (simp add: requestParse_loop.simps [of request ys]
              requestParse_loop.simps [of request "xs @ ys"] nth_append)
    next
      case (Inr p)
      obtain request' replay where p: "p = (request', replay)" by (cases p)
      from "1.IH" [OF True Inr p [symmetric]]
      have "requestParse_loop request' (xs @ ys) (length xs + (if replay then j else j + 1))
              = requestParse_loop request' ys (if replay then j else j + 1)" .
      with True Inr p show ?thesis
        by (cases replay)
           (simp_all add: requestParse_loop.simps [of request ys]
              requestParse_loop.simps [of request "xs @ ys"] nth_append)
    qed
  qed
qed

lemma requestParse_loop_append:
  "i \<le> length xs \<Longrightarrow>
     requestParse_loop request (xs @ ys) i =
       (case requestParse_loop request xs i of
          Inl f \<Rightarrow> Inl f
        | Inr request' \<Rightarrow> requestParse_loop request' ys 0)"
proof (induction request xs i rule: requestParse_loop.induct)
  case (1 request xs i)
  show ?case
  proof (cases "i < length xs")
    case False
    with "1.prems" have i: "i = length xs" by simp
    from requestParse_loop_shift [of request xs ys 0]
    show ?thesis by (simp add: i requestParse_loop_end)
  next
    case True
    show ?thesis
    proof (cases "requestParse_step request (xs ! i)")
      case (Inl f)
      with True show ?thesis
        by (simp add: requestParse_loop.simps [of request xs]
              requestParse_loop.simps [of request "xs @ ys"] nth_append)
    next
      case (Inr p)
      obtain request' replay where p: "p = (request', replay)" by (cases p)
      from True have "(if replay then i else i + 1) \<le> length xs" by simp
      from "1.IH" [OF True Inr p [symmetric] this]
      have "requestParse_loop request' (xs @ ys) (if replay then i else i + 1)
              = (case requestParse_loop request' xs (if replay then i else i + 1) of
                   Inl f \<Rightarrow> Inl f
                 | Inr request'' \<Rightarrow> requestParse_loop request'' ys 0)" .
      with True Inr p show ?thesis
        by (cases replay)
           (simp_all add: requestParse_loop.simps [of request xs]
              requestParse_loop.simps [of request "xs @ ys"] nth_append)
    qed
  qed
qed

lemma requestParse_append:
  "requestParse request (xs @ ys) =
     (case requestParse request xs of
        Inl f \<Rightarrow> Inl f
      | Inr request' \<Rightarrow> requestParse request' ys)"
  unfolding requestParse_def by (simp add: requestParse_loop_append)

lemma requestParse_Nil: "requestParse request [] = Inr request"
  by (simp add: requestParse_def requestParse_loop_end)

text \<open>
  C3. However a sequence of bytes is cut into consecutive chunks, one call of
  \<open>requestParse\<close> per chunk, in order, gives what one call with the whole sequence
  gives: the same request, field by field, or the same fault. This holds from any
  request, so also from the zero-initialized one.
\<close>

theorem requestParse_chunks_concat:
  "requestParse_chunks request chunks = requestParse request (concat chunks)"
proof (induction chunks arbitrary: request)
  case Nil
  show ?case by (simp add: requestParse_Nil)
next
  case (Cons chunk chunks)
  show ?case
    by (simp add: requestParse_append Cons.IH split: sum.splits)
qed

theorem requestParse_chunks_concat_witness:
  "requestParse_chunks zeroRequest [''GE'', ''T /index.h'', [], ''tml HTTP/1.0'', [CR], [LF, CR, LF]]
     = requestParse zeroRequest (''GET /index.html HTTP/1.0'' @ [CR, LF, CR, LF])"
  using requestParse_chunks_concat
          [of zeroRequest "[''GE'', ''T /index.h'', [], ''tml HTTP/1.0'', [CR], [LF, CR, LF]]"]
  by simp

lemma requestParse_loop_Done:
  "state request = RequestParseStateDone \<Longrightarrow>
     requestParse_loop request requestFragment i =
       Inr (request\<lparr>warnings := (warnings request)\<lparr>bodyTruncated :=
              bodyTruncated (warnings request)
              \<or> (i < length requestFragment \<and> hs_contents (body request) \<noteq> None)\<rparr>\<rparr>)"
proof (induction request requestFragment i rule: requestParse_loop.induct)
  case (1 request requestFragment i)
  show ?case
  proof (cases "i < length requestFragment")
    case False
    then show ?thesis by (simp add: requestParse_loop_end)
  next
    case True
    let ?request' = "if hs_contents (body request) \<noteq> None
      then request\<lparr>warnings := (warnings request)\<lparr>bodyTruncated := True\<rparr>\<rparr> else request"
    have step: "requestParse_step request (requestFragment ! i) = Inr (?request', False)"
      using "1.prems" by (simp add: requestParse_step_def requestParse_Done_def)
    have "state ?request' = RequestParseStateDone" using "1.prems" by simp
    from "1.IH" [OF True step refl this]
    have "requestParse_loop ?request' requestFragment (i + 1) =
       Inr (?request'\<lparr>warnings := (warnings ?request')\<lparr>bodyTruncated :=
              bodyTruncated (warnings ?request')
              \<or> (i + 1 < length requestFragment \<and> hs_contents (body ?request') \<noteq> None)\<rparr>\<rparr>)"
      by simp
    with True step show ?thesis
      by (simp add: requestParse_loop.simps [of request requestFragment i])
  qed
qed

text \<open>
  C7. For a request in the state \<open>Done\<close>, \<open>requestParse\<close> with any further bytes
  returns the request with every field as it was, but for the warning
  \<open>bodyTruncated\<close>, which is set when there is at least one byte and the body has a
  block.
\<close>

theorem requestParse_Done_frame:
  assumes "state request = RequestParseStateDone"
  shows "requestParse request requestFragment =
           Inr (request\<lparr>warnings := (warnings request)\<lparr>bodyTruncated :=
                  bodyTruncated (warnings request)
                  \<or> (requestFragment \<noteq> [] \<and> hs_contents (body request) \<noteq> None)\<rparr>\<rparr>)"
  using requestParse_loop_Done [OF assms, of requestFragment 0]
  by (simp add: requestParse_def)

theorem requestParse_Done_frame_witness:
  "state (zeroRequest\<lparr>state := RequestParseStateDone\<rparr>) = RequestParseStateDone
   \<and> requestParse (zeroRequest\<lparr>state := RequestParseStateDone\<rparr>) ''more''
       = Inr (zeroRequest\<lparr>state := RequestParseStateDone\<rparr>)
   \<and> requestParse (zeroRequest\<lparr>state := RequestParseStateDone,
                       body := \<lparr>hs_contents = Some [CHR ''h'', CHR ''i'', NUL],
                                hs_length = 2, hs_capacity = 2\<rparr>\<rparr>) ''more''
       = Inr (zeroRequest\<lparr>state := RequestParseStateDone,
                body := \<lparr>hs_contents = Some [CHR ''h'', CHR ''i'', NUL],
                         hs_length = 2, hs_capacity = 2\<rparr>,
                warnings := zeroWarnings\<lparr>bodyTruncated := True\<rparr>\<rparr>)"
proof -
  have w: "warnings zeroRequest = zeroWarnings" "hs_contents (body zeroRequest) = None"
    by (simp_all add: zeroRequest_def)
  have z: "zeroWarnings\<lparr>bodyTruncated := False\<rparr> = zeroWarnings"
          "bodyTruncated zeroWarnings = False"
    by (simp_all add: zeroWarnings_def)
  show ?thesis
    using requestParse_Done_frame [of "zeroRequest\<lparr>state := RequestParseStateDone\<rparr>" "''more''"]
      requestParse_Done_frame [of "zeroRequest\<lparr>state := RequestParseStateDone,
                       body := \<lparr>hs_contents = Some [CHR ''h'', CHR ''i'', NUL],
                                hs_length = 2, hs_capacity = 2\<rparr>\<rparr>" "''more''"]
    by (simp add: w z)
qed

subsection \<open>The header string pool\<close>

lemma request_invariant_zeroRequest: "request_invariant zeroRequest"
  by (simp add: request_invariant_def zeroRequest_def zeroHeader_def zeroPoolString_def
        poolString_inside_def headers_inside_def)

lemma URLDecode_loop_returns:
  "length decoded = decodedCapacity \<Longrightarrow> 0 < decodedCapacity \<Longrightarrow> decodedCapacity < 2 ^ 64 \<Longrightarrow>
   deci < decodedCapacity \<Longrightarrow>
     \<exists>decoded'. URLDecode_loop type decodedCapacity encoded decoded deci st firstDigit = Inr decoded'
        \<and> length decoded' = decodedCapacity"
proof (induction encoded arbitrary: decoded deci st firstDigit)
  case Nil
  then show ?case by (simp add: store_at_def)
next
  case (Cons c encoded)
  have cap: "size_t (decodedCapacity + 2 ^ 64 - 1) = decodedCapacity - 1"
  proof -
    have "decodedCapacity + 2 ^ 64 - 1 = (decodedCapacity - 1) + 1 * 2 ^ 64"
      using Cons.prems(2) by simp
    then have "(decodedCapacity + 2 ^ 64 - 1) mod 2 ^ 64 = (decodedCapacity - 1) mod 2 ^ 64"
      by (simp only: mod_mult_self1)
    with Cons.prems(3) show ?thesis by (simp add: size_t_def)
  qed
  show ?case
  proof (cases "deci \<ge> decodedCapacity - 1 \<or> (c = CHR ''&'' \<and> type = URLDecodeTypeParameter)")
    case True
    with Cons.prems show ?thesis
      unfolding URLDecode_loop.simps cap by (auto simp: store_at_def)
  next
    case False
    then have d: "deci + 1 < decodedCapacity" by auto
    have s: "\<And>x. store_at decoded deci x = Inr (decoded[deci := x])"
      using Cons.prems by (simp add: store_at_def)
    have l: "\<And>x. length (decoded[deci := x]) = decodedCapacity"
      using Cons.prems by simp
    note IH1 = Cons.IH [OF Cons.prems(1) Cons.prems(2) Cons.prems(3) Cons.prems(4)]
    note IH2 = Cons.IH [OF l Cons.prems(2) Cons.prems(3) d]
    from False show ?thesis
      using IH1 IH2
      unfolding URLDecode_loop.simps cap
      by (cases st) (auto simp: s split: option.splits)
  qed
qed

lemma cstring_at_returns:
  "NUL \<in> set (drop i array) \<Longrightarrow> \<exists>text. cstring_at array i = Inr text"
  by (simp add: cstring_at_def)

lemma poolString_inside_mono:
  "poolString_inside offset poolString \<Longrightarrow> offset \<le> offset' \<Longrightarrow>
     poolString_inside offset' poolString"
  by (auto simp: poolString_inside_def split: option.splits)

lemma headers_inside_mono:
  "headers_inside offset headers' \<Longrightarrow> offset \<le> offset' \<Longrightarrow> headers_inside offset' headers'"
  by (auto simp: headers_inside_def intro: poolString_inside_mono)

lemma headers_inside_update:
  "headers_inside offset headers' \<Longrightarrow> poolString_inside offset (name header) \<Longrightarrow>
   poolString_inside offset (value header) \<Longrightarrow> headers_inside offset (headers'[k := header])"
proof (cases "k < length headers'")
  case True
  assume "headers_inside offset headers'" "poolString_inside offset (name header)"
    "poolString_inside offset (value header)"
  with True show ?thesis
    by (auto simp: headers_inside_def nth_list_update)
next
  case False
  assume "headers_inside offset headers'"
  with False show ?thesis by (simp add: list_update_beyond)
qed

lemma headers_inside_nth:
  "headers_inside offset headers' \<Longrightarrow> k < length headers' \<Longrightarrow>
     poolString_inside offset (name (headers' ! k)) \<and> poolString_inside offset (value (headers' ! k))"
  by (simp add: headers_inside_def)

lemma poolString_load_eq:
  "headerOf poolString < length (headers request) \<Longrightarrow>
     poolString_load request poolString
       = Inr (poolString_get poolString (headers request ! headerOf poolString))"
  by (cases poolString) (simp_all add: poolString_load_def load_at_def headerOf_def poolString_get_def)

lemma poolString_store_eq:
  "headerOf poolString < length (headers request) \<Longrightarrow>
     poolString_store request poolString string
       = Inr (request\<lparr>headers := (headers request)[headerOf poolString :=
                poolString_put poolString string (headers request ! headerOf poolString)]\<rparr>)"
  by (cases poolString)
     (simp_all add: poolString_store_def load_at_def headerOf_def poolString_put_def)

lemma headers_inside_put:
  assumes "headers_inside offset headers'" "poolString_inside offset string"
  shows "headers_inside offset
           (headers'[k := poolString_put poolString string (headers' ! k)])"
proof (cases "k < length headers'")
  case True
  from headers_inside_nth [OF assms(1) True] assms show ?thesis
    by (cases poolString) (auto simp: poolString_put_def intro: headers_inside_update)
next
  case False
  with assms(1) show ?thesis by (simp add: list_update_beyond)
qed

lemma poolString_get_put:
  "poolString_get poolString (poolString_put poolString string header) = string"
  by (cases poolString) (simp_all add: poolString_get_def poolString_put_def)

lemma poolStringStartNewString_invariant:
  assumes "request_invariant request" "headerOf poolString < REQUEST_MAX_HEADERS"
  shows "\<exists>request'. poolStringStartNewString poolString request = Inr request'
           \<and> request_invariant request'
           \<and> state request' = state request
           \<and> headersCount request' = headersCount request
           \<and> body request' = body request
           \<and> headersStringPoolOffset request \<le> headersStringPoolOffset request'
           \<and> (ps_contents (poolString_get poolString (headers request' ! headerOf poolString)) = None
                 \<longrightarrow> REQUEST_HEADERS_MAX_MEMORY - 1 \<le> headersStringPoolOffset request')"
proof -
  let ?k = "headerOf poolString"
  from assms have k: "?k < length (headers request)"
    and inside: "headers_inside (headersStringPoolOffset request) (headers request)"
    by (simp_all add: request_invariant_def)
  consider (first) "headersStringPoolOffset request = 0"
    | (full) "headersStringPoolOffset request \<ge> REQUEST_HEADERS_MAX_MEMORY - 1"
    | (room) "0 < headersStringPoolOffset request"
        "headersStringPoolOffset request < REQUEST_HEADERS_MAX_MEMORY - 1"
    by linarith
  then show ?thesis
  proof cases
    case first
    have "poolString_inside 0 \<lparr>ps_contents = Some 0, ps_length = 0\<rparr>"
      by (simp add: poolString_inside_def)
    with inside first have "headers_inside 0 ((headers request)[?k :=
        poolString_put poolString \<lparr>ps_contents = Some 0, ps_length = 0\<rparr> (headers request ! ?k)])"
      by (intro headers_inside_put) simp_all
    with assms(1) first k show ?thesis
      by (simp add: poolStringStartNewString_def poolString_store_eq request_invariant_def
            poolString_get_put)
  next
    case full
    have "poolString_inside (headersStringPoolOffset request) \<lparr>ps_contents = None, ps_length = 0\<rparr>"
      by (simp add: poolString_inside_def)
    with inside have "headers_inside (headersStringPoolOffset request) ((headers request)[?k :=
        poolString_put poolString \<lparr>ps_contents = None, ps_length = 0\<rparr> (headers request ! ?k)])"
      by (intro headers_inside_put) simp_all
    with assms(1) full k show ?thesis
      by (simp add: poolStringStartNewString_def poolString_store_eq request_invariant_def
            poolString_get_put)
  next
    case room
    have "poolString_inside (headersStringPoolOffset request + 1)
            \<lparr>ps_contents = Some (headersStringPoolOffset request + 1), ps_length = 0\<rparr>"
      by (simp add: poolString_inside_def)
    moreover from inside have "headers_inside (headersStringPoolOffset request + 1) (headers request)"
      by (rule headers_inside_mono) simp
    ultimately have "headers_inside (headersStringPoolOffset request + 1) ((headers request)[?k :=
        poolString_put poolString
          \<lparr>ps_contents = Some (headersStringPoolOffset request + 1), ps_length = 0\<rparr>
          (headers request ! ?k)])"
      by (intro headers_inside_put) simp_all
    with assms(1) room k show ?thesis
      by (simp add: poolStringStartNewString_def poolString_store_eq request_invariant_def
            poolString_get_put)
  qed
qed

lemma poolStringAppendChar_invariant:
  assumes "request_invariant request" "headerOf poolString < REQUEST_MAX_HEADERS"
    and "ps_contents (poolString_get poolString (headers request ! headerOf poolString)) = None
           \<longrightarrow> REQUEST_HEADERS_MAX_MEMORY - 1 \<le> headersStringPoolOffset request"
  shows "\<exists>request'. poolStringAppendChar request poolString c = Inr request'
           \<and> request_invariant request'
           \<and> state request' = state request
           \<and> headersCount request' = headersCount request
           \<and> body request' = body request
           \<and> headersStringPoolOffset request \<le> headersStringPoolOffset request'"
proof (cases "headersStringPoolOffset request
                \<ge> REQUEST_HEADERS_MAX_MEMORY - 1 - sizeof_character_constant")
  case True
  with assms(1) show ?thesis
    by (simp add: poolStringAppendChar_def request_invariant_def)
next
  case False
  let ?k = "headerOf poolString"
  let ?string = "poolString_get poolString (headers request ! ?k)"
  from assms have k: "?k < length (headers request)"
    and inside: "headers_inside (headersStringPoolOffset request) (headers request)"
    by (simp_all add: request_invariant_def)
  from False assms(3) obtain contents where c: "ps_contents ?string = Some contents"
    by (cases "ps_contents ?string") auto
  from headers_inside_nth [OF inside k]
  have "poolString_inside (headersStringPoolOffset request) ?string"
    by (cases poolString) (simp_all add: poolString_get_def)
  with c have le: "contents + ps_length ?string \<le> headersStringPoolOffset request"
    by (simp add: poolString_inside_def)
  with False assms(1) have st: "store_at (headersStringPool request) (contents + ps_length ?string) c
      = Inr ((headersStringPool request)[contents + ps_length ?string := c])"
    by (simp add: store_at_def request_invariant_def)
  have "poolString_inside (headersStringPoolOffset request + 1)
          (?string\<lparr>ps_length := ps_length ?string + 1\<rparr>)"
    using c le by (simp add: poolString_inside_def)
  moreover from inside have "headers_inside (headersStringPoolOffset request + 1) (headers request)"
    by (rule headers_inside_mono) simp
  ultimately have "headers_inside (headersStringPoolOffset request + 1) ((headers request)[?k :=
        poolString_put poolString (?string\<lparr>ps_length := ps_length ?string + 1\<rparr>)
          (headers request ! ?k)])"
    by (intro headers_inside_put) simp_all
  with assms(1) False k c st show ?thesis
    by (simp add: poolStringAppendChar_def poolString_load_eq poolString_store_eq
          request_invariant_def)
qed

lemma requestParse_Method_invariant:
  assumes "request_invariant request" "state request = RequestParseStateMethod"
  shows "\<exists>request' replay. requestParse_Method request c = Inr (request', replay)
           \<and> request_invariant request'
           \<and> headersStringPoolOffset request \<le> headersStringPoolOffset request'"
  using assms by (auto simp: requestParse_Method_def store_at_def request_invariant_def)

lemma requestParse_Version_invariant:
  assumes "request_invariant request" "state request = RequestParseStateVersion"
  shows "\<exists>request' replay. requestParse_Version request c = Inr (request', replay)
           \<and> request_invariant request'
           \<and> headersStringPoolOffset request \<le> headersStringPoolOffset request'"
  using assms by (auto simp: requestParse_Version_def store_at_def request_invariant_def)

lemma requestParse_Path_invariant:
  assumes "request_invariant request" "state request = RequestParseStatePath"
  shows "\<exists>request' replay. requestParse_Path request c = Inr (request', replay)
           \<and> request_invariant request'
           \<and> headersStringPoolOffset request \<le> headersStringPoolOffset request'"
proof (cases "c = CHR '' ''")
  case True
  from assms have "path request ! 1023 \<in> set (path request)"
    by (intro nth_mem) (simp add: request_invariant_def)
  with assms have "NUL \<in> set (drop 0 (path request))"
    by (simp add: request_invariant_def)
  from cstring_at_returns [OF this] obtain encoded where
    e: "cstring_at (path request) 0 = Inr encoded" by blast
  from assms have "length (pathDecoded request) = 1024" by (simp add: request_invariant_def)
  from URLDecode_loop_returns [OF this, of 0 URLDecodeTypeWholeURL encoded URLDecodeStateNormal NUL]
  obtain decoded' where
    d: "URLDecode encoded (pathDecoded request) 1024 URLDecodeTypeWholeURL = Inr decoded'"
       "length decoded' = 1024"
    by (auto simp: URLDecode_def)
  with assms True e show ?thesis
    by (auto simp: requestParse_Path_def request_invariant_def)
next
  case False
  with assms show ?thesis
    by (auto simp: requestParse_Path_def store_at_def request_invariant_def)
qed

lemma requestParse_HeaderName_invariant:
  assumes "request_invariant request" "state request = RequestParseStateHeaderName"
  shows "\<exists>request' replay. requestParse_HeaderName request c = Inr (request', replay)
           \<and> request_invariant request'
           \<and> headersStringPoolOffset request \<le> headersStringPoolOffset request'"
proof (cases "c = CHR '':'' \<or> c = CR \<or> \<not> headersCount request < REQUEST_MAX_HEADERS")
  case True
  with assms show ?thesis
    by (auto simp: requestParse_HeaderName_def request_invariant_def)
next
  case False
  let ?k = "headersCount request"
  let ?ref = "NameOfHeader ?k"
  from False have k: "headerOf ?ref < REQUEST_MAX_HEADERS" by (simp add: headerOf_def)
  from assms False have l: "load_at (headers request) ?k = Inr (headers request ! ?k)"
    by (simp add: load_at_def request_invariant_def)
  have "\<exists>request1.
          (if ps_contents (name (headers request ! ?k)) = None
           then poolStringStartNewString ?ref request else Inr request) = Inr request1
        \<and> request_invariant request1
        \<and> headersStringPoolOffset request \<le> headersStringPoolOffset request1
        \<and> (ps_contents (poolString_get ?ref (headers request1 ! headerOf ?ref)) = None
               \<longrightarrow> REQUEST_HEADERS_MAX_MEMORY - 1 \<le> headersStringPoolOffset request1)"
  proof (cases "ps_contents (name (headers request ! ?k)) = None")
    case True
    from poolStringStartNewString_invariant [OF assms(1) k] True show ?thesis by auto
  next
    case False
    with assms show ?thesis by (auto simp: poolString_get_def headerOf_def)
  qed
  then obtain request1 where r1':
    "(if ps_contents (name (headers request ! ?k)) = None
      then poolStringStartNewString ?ref request else Inr request) = Inr request1
     \<and> request_invariant request1
     \<and> headersStringPoolOffset request \<le> headersStringPoolOffset request1
     \<and> (ps_contents (poolString_get ?ref (headers request1 ! headerOf ?ref)) = None
          \<longrightarrow> REQUEST_HEADERS_MAX_MEMORY - 1 \<le> headersStringPoolOffset request1)"
    by (rule exE)
  note r1 = r1' [THEN conjunct1] r1' [THEN conjunct2, THEN conjunct1]
    r1' [THEN conjunct2, THEN conjunct2, THEN conjunct1]
    r1' [THEN conjunct2, THEN conjunct2, THEN conjunct2]
  from poolStringAppendChar_invariant [OF r1(2) k r1(4), of c] obtain request2 where r2:
    "poolStringAppendChar request1 ?ref c = Inr request2" "request_invariant request2"
    "headersStringPoolOffset request1 \<le> headersStringPoolOffset request2"
    by (elim exE conjE)
  from False l r1 r2 show ?thesis
    by (auto simp: requestParse_HeaderName_def)
qed

lemma requestParse_HeaderValue_invariant:
  assumes "request_invariant request" "state request = RequestParseStateHeaderValue"
  shows "\<exists>request' replay. requestParse_HeaderValue request c = Inr (request', replay)
           \<and> request_invariant request'
           \<and> headersStringPoolOffset request \<le> headersStringPoolOffset request'"
proof (cases "headersCount request < REQUEST_MAX_HEADERS")
  case False
  with assms show ?thesis
    by (auto simp: requestParse_HeaderValue_def request_invariant_def)
next
  case True
  let ?k = "headersCount request"
  let ?ref = "ValueOfHeader ?k"
  from True have k: "headerOf ?ref < REQUEST_MAX_HEADERS" by (simp add: headerOf_def)
  from assms True have l: "load_at (headers request) ?k = Inr (headers request ! ?k)"
    by (simp add: load_at_def request_invariant_def)
  show ?thesis
  proof (cases "(c = CHR '' '' \<and> ps_length (value (headers request ! ?k)) = 0) \<or> c = CR")
    case skip: True
    with assms True l show ?thesis
      by (auto simp: requestParse_HeaderValue_def request_invariant_def)
  next
    case False
    have "\<exists>request1.
            (if ps_contents (value (headers request ! ?k)) = None
             then poolStringStartNewString ?ref request else Inr request) = Inr request1
          \<and> request_invariant request1
          \<and> headersStringPoolOffset request \<le> headersStringPoolOffset request1
          \<and> (ps_contents (poolString_get ?ref (headers request1 ! headerOf ?ref)) = None
                 \<longrightarrow> REQUEST_HEADERS_MAX_MEMORY - 1 \<le> headersStringPoolOffset request1)"
    proof (cases "ps_contents (value (headers request ! ?k)) = None")
      case True
      from poolStringStartNewString_invariant [OF assms(1) k] True show ?thesis by auto
    next
      case False
      with assms show ?thesis by (auto simp: poolString_get_def headerOf_def)
    qed
    then obtain request1 where r1':
      "(if ps_contents (value (headers request ! ?k)) = None
        then poolStringStartNewString ?ref request else Inr request) = Inr request1
       \<and> request_invariant request1
       \<and> headersStringPoolOffset request \<le> headersStringPoolOffset request1
       \<and> (ps_contents (poolString_get ?ref (headers request1 ! headerOf ?ref)) = None
            \<longrightarrow> REQUEST_HEADERS_MAX_MEMORY - 1 \<le> headersStringPoolOffset request1)"
      by (rule exE)
    note r1 = r1' [THEN conjunct1] r1' [THEN conjunct2, THEN conjunct1]
      r1' [THEN conjunct2, THEN conjunct2, THEN conjunct1]
      r1' [THEN conjunct2, THEN conjunct2, THEN conjunct2]
    from poolStringAppendChar_invariant [OF r1(2) k r1(4), of c] obtain request2 where r2:
      "poolStringAppendChar request1 ?ref c = Inr request2" "request_invariant request2"
      "headersStringPoolOffset request1 \<le> headersStringPoolOffset request2"
      by (elim exE conjE)
    from False True l r1 r2 show ?thesis
      by (auto simp: requestParse_HeaderValue_def)
  qed
qed

lemma requestParse_CRLFCR_invariant:
  assumes "request_invariant request" "requestParse_CRLFCR request c = Inr (request', replay)"
    and "state request = RequestParseStateCRLFCR"
  shows "request_invariant request'
       \<and> headersStringPoolOffset request \<le> headersStringPoolOffset request'"
  using assms
  by (auto simp: requestParse_CRLFCR_def request_invariant_def Let_def
        split: if_splits sum.splits option.splits)

lemma requestParse_Body_invariant:
  assumes "request_invariant request" "requestParse_Body request c = Inr (request', replay)"
    and "state request = RequestParseStateBody"
  shows "request_invariant request'
       \<and> headersStringPoolOffset request \<le> headersStringPoolOffset request'"
  using assms
  by (auto simp: requestParse_Body_def request_invariant_def Let_def
        split: if_splits sum.splits)

lemma requestParse_step_returns:
  assumes "request_invariant request"
    and "state request \<noteq> RequestParseStateCRLFCR" "state request \<noteq> RequestParseStateBody"
  shows "\<exists>request' replay. requestParse_step request c = Inr (request', replay)"
proof (cases "state request")
  case RequestParseStateMethod
  with requestParse_Method_invariant [OF assms(1) RequestParseStateMethod, of c] show ?thesis
    by (auto simp: requestParse_step_def)
next
  case RequestParseStatePath
  with requestParse_Path_invariant [OF assms(1) RequestParseStatePath, of c] show ?thesis
    by (auto simp: requestParse_step_def)
next
  case RequestParseStateVersion
  with requestParse_Version_invariant [OF assms(1) RequestParseStateVersion, of c] show ?thesis
    by (auto simp: requestParse_step_def)
next
  case RequestParseStateHeaderName
  with requestParse_HeaderName_invariant [OF assms(1) RequestParseStateHeaderName, of c] show ?thesis
    by (auto simp: requestParse_step_def)
next
  case RequestParseStateHeaderValue
  with requestParse_HeaderValue_invariant [OF assms(1) RequestParseStateHeaderValue, of c] show ?thesis
    by (auto simp: requestParse_step_def)
next
  case RequestParseStateCR
  then show ?thesis by (auto simp: requestParse_step_def requestParse_CR_def)
next
  case RequestParseStateCRLF
  then show ?thesis by (auto simp: requestParse_step_def requestParse_CRLF_def)
next
  case RequestParseStateCRLFCR
  with assms show ?thesis by simp
next
  case RequestParseStateBody
  with assms show ?thesis by simp
next
  case RequestParseStateDone
  then show ?thesis by (auto simp: requestParse_step_def requestParse_Done_def)
qed

lemma requestParse_step_invariant:
  assumes "request_invariant request" "requestParse_step request c = Inr (request', replay)"
  shows "request_invariant request'
       \<and> headersStringPoolOffset request \<le> headersStringPoolOffset request'"
proof (cases "state request")
  case RequestParseStateMethod
  with requestParse_Method_invariant [OF assms(1) RequestParseStateMethod, of c] assms(2) show ?thesis
    by (auto simp: requestParse_step_def)
next
  case RequestParseStatePath
  with requestParse_Path_invariant [OF assms(1) RequestParseStatePath, of c] assms(2) show ?thesis
    by (auto simp: requestParse_step_def)
next
  case RequestParseStateVersion
  with requestParse_Version_invariant [OF assms(1) RequestParseStateVersion, of c] assms(2) show ?thesis
    by (auto simp: requestParse_step_def)
next
  case RequestParseStateHeaderName
  with requestParse_HeaderName_invariant [OF assms(1) RequestParseStateHeaderName, of c] assms(2) show ?thesis
    by (auto simp: requestParse_step_def)
next
  case RequestParseStateHeaderValue
  with requestParse_HeaderValue_invariant [OF assms(1) RequestParseStateHeaderValue, of c] assms(2) show ?thesis
    by (auto simp: requestParse_step_def)
next
  case RequestParseStateCR
  with assms show ?thesis
    by (auto simp: requestParse_step_def requestParse_CR_def request_invariant_def
          split: if_splits)
next
  case RequestParseStateCRLF
  with assms show ?thesis
    by (auto simp: requestParse_step_def requestParse_CRLF_def request_invariant_def
          split: if_splits)
next
  case RequestParseStateCRLFCR
  with assms(2) have "requestParse_CRLFCR request c = Inr (request', replay)"
    by (simp add: requestParse_step_def)
  from requestParse_CRLFCR_invariant [OF assms(1) this RequestParseStateCRLFCR] show ?thesis .
next
  case RequestParseStateBody
  with assms(2) have "requestParse_Body request c = Inr (request', replay)"
    by (simp add: requestParse_step_def)
  from requestParse_Body_invariant [OF assms(1) this RequestParseStateBody] show ?thesis .
next
  case RequestParseStateDone
  with assms show ?thesis
    by (auto simp: requestParse_step_def requestParse_Done_def request_invariant_def
          split: if_splits)
qed

lemma requestParse_loop_invariant:
  "request_invariant request \<Longrightarrow> requestParse_loop request requestFragment i = Inr request'
     \<Longrightarrow> request_invariant request'"
proof (induction request requestFragment i rule: requestParse_loop.induct)
  case (1 request requestFragment i)
  show ?case
  proof (cases "i < length requestFragment")
    case False
    with "1.prems" show ?thesis by (simp add: requestParse_loop.simps [of request])
  next
    case True
    with "1.prems"(2) obtain request1 replay where
      s: "requestParse_step request (requestFragment ! i) = Inr (request1, replay)"
      and l: "requestParse_loop request1 requestFragment (if replay then i else i + 1) = Inr request'"
      by (auto simp: requestParse_loop.simps [of request] split: sum.splits)
    from requestParse_step_invariant [OF "1.prems"(1) s]
    have "request_invariant request1" by simp
    from "1.IH" [OF True s refl this l] show ?thesis .
  qed
qed

lemma requestParse_chunks_invariant:
  "request_invariant request \<Longrightarrow> requestParse_chunks request chunks = Inr request'
     \<Longrightarrow> request_invariant request'"
proof (induction chunks arbitrary: request)
  case Nil
  then show ?case by simp
next
  case (Cons chunk chunks)
  from Cons.prems(2) obtain request1 where
    c: "requestParse request chunk = Inr request1"
    and r: "requestParse_chunks request1 chunks = Inr request'"
    by (auto split: sum.splits)
  from requestParse_loop_invariant [OF Cons.prems(1) c [unfolded requestParse_def]]
  have "request_invariant request1" .
  from Cons.IH [OF this r] show ?case .
qed

text \<open>
  C10. Take any request that parsing has reached from the zero-initialized one, and
  either pool string of any of its 64 headers. Then \<open>headersStringPoolOffset\<close> is at
  most \<open>REQUEST_HEADERS_MAX_MEMORY - 1\<close>. \<open>poolStringStartNewString\<close> returns, and
  \<open>poolStringAppendChar\<close> after it returns too: its write is neither through NULL nor
  outside the pool. When \<open>poolStringStartNewString\<close> has left the contents NULL, then
  in every request whose offset is not below the one it left (the offset never
  decreases) \<open>poolStringAppendChar\<close> only sets the warning. On a pool string whose
  contents are not NULL, \<open>poolStringAppendChar\<close> returns. And the parser itself, in
  every state but \<open>CRLFCR\<close> and \<open>Body\<close> (where it does not touch the pool),
  handles every byte without a fault, and never decreases the offset.
\<close>

theorem headersStringPool_safe:
  assumes "requestParse_chunks zeroRequest chunks = Inr request"
    and "k < REQUEST_MAX_HEADERS"
    and "poolString = NameOfHeader k \<or> poolString = ValueOfHeader k"
  shows "headersStringPoolOffset request \<le> REQUEST_HEADERS_MAX_MEMORY - 1
    \<and> (\<exists>started.
          poolStringStartNewString poolString request = Inr started
        \<and> headersStringPoolOffset started \<le> REQUEST_HEADERS_MAX_MEMORY - 1
        \<and> (\<exists>appended. poolStringAppendChar started poolString c = Inr appended
              \<and> headersStringPoolOffset appended \<le> REQUEST_HEADERS_MAX_MEMORY - 1)
        \<and> (poolString_load started poolString = Inr \<lparr>ps_contents = None, ps_length = 0\<rparr> \<longrightarrow>
             (\<forall>later. headersStringPoolOffset started \<le> headersStringPoolOffset later \<longrightarrow>
                poolStringAppendChar later poolString c
                  = Inr (later\<lparr>warnings := (warnings later)\<lparr>headersStringPoolExhausted := True\<rparr>\<rparr>))))
    \<and> (\<forall>string. poolString_load request poolString = Inr string \<and> ps_contents string \<noteq> None \<longrightarrow>
          (\<exists>appended. poolStringAppendChar request poolString c = Inr appended
             \<and> headersStringPoolOffset appended \<le> REQUEST_HEADERS_MAX_MEMORY - 1))
    \<and> (state request \<noteq> RequestParseStateCRLFCR \<and> state request \<noteq> RequestParseStateBody \<longrightarrow>
          (\<exists>request' replay. requestParse_step request c = Inr (request', replay)))
    \<and> (\<forall>request' replay. requestParse_step request c = Inr (request', replay) \<longrightarrow>
          headersStringPoolOffset request \<le> headersStringPoolOffset request')"
proof -
  from requestParse_chunks_invariant [OF request_invariant_zeroRequest assms(1)]
  have inv: "request_invariant request" .
  from assms(2,3) have k: "headerOf poolString < REQUEST_MAX_HEADERS"
    by (auto simp: headerOf_def)
  from inv k have len: "headerOf poolString < length (headers request)"
    by (simp add: request_invariant_def)
  have bound: "\<And>r. request_invariant r \<Longrightarrow>
      headersStringPoolOffset r \<le> REQUEST_HEADERS_MAX_MEMORY - 1"
    by (simp add: request_invariant_def)
  have 1: "headersStringPoolOffset request \<le> REQUEST_HEADERS_MAX_MEMORY - 1"
    using inv by (rule bound)
  from poolStringStartNewString_invariant [OF inv k] obtain started where
    s: "poolStringStartNewString poolString request = Inr started"
       "request_invariant started"
       "ps_contents (poolString_get poolString (headers started ! headerOf poolString)) = None
          \<longrightarrow> REQUEST_HEADERS_MAX_MEMORY - 1 \<le> headersStringPoolOffset started"
    by (elim exE conjE)
  from poolStringAppendChar_invariant [OF s(2) k s(3), of c] obtain appended where
    a: "poolStringAppendChar started poolString c = Inr appended" "request_invariant appended"
    by (elim exE conjE)
  from s(2) k have len': "headerOf poolString < length (headers started)"
    by (simp add: request_invariant_def)
  have guard: "poolStringAppendChar later poolString c
                 = Inr (later\<lparr>warnings := (warnings later)\<lparr>headersStringPoolExhausted := True\<rparr>\<rparr>)"
    if "poolString_load started poolString = Inr \<lparr>ps_contents = None, ps_length = 0\<rparr>"
      and "headersStringPoolOffset started \<le> headersStringPoolOffset later" for later
  proof -
    from that(1) have "ps_contents (poolString_get poolString (headers started ! headerOf poolString)) = None"
      by (simp add: poolString_load_eq [OF len'])
    with s(3) that(2) have "REQUEST_HEADERS_MAX_MEMORY - 1 \<le> headersStringPoolOffset later"
      by simp
    then show ?thesis by (simp add: poolStringAppendChar_def)
  qed
  have 2: "\<exists>started.
          poolStringStartNewString poolString request = Inr started
        \<and> headersStringPoolOffset started \<le> REQUEST_HEADERS_MAX_MEMORY - 1
        \<and> (\<exists>appended. poolStringAppendChar started poolString c = Inr appended
              \<and> headersStringPoolOffset appended \<le> REQUEST_HEADERS_MAX_MEMORY - 1)
        \<and> (poolString_load started poolString = Inr \<lparr>ps_contents = None, ps_length = 0\<rparr> \<longrightarrow>
             (\<forall>later. headersStringPoolOffset started \<le> headersStringPoolOffset later \<longrightarrow>
                poolStringAppendChar later poolString c
                  = Inr (later\<lparr>warnings := (warnings later)\<lparr>headersStringPoolExhausted := True\<rparr>\<rparr>)))"
    using s(1) bound [OF s(2)] a(1) bound [OF a(2)] guard by blast
  have 3: "\<exists>appended. poolStringAppendChar request poolString c = Inr appended
             \<and> headersStringPoolOffset appended \<le> REQUEST_HEADERS_MAX_MEMORY - 1"
    if "poolString_load request poolString = Inr string \<and> ps_contents string \<noteq> None" for string
  proof -
    from that have "ps_contents (poolString_get poolString (headers request ! headerOf poolString)) \<noteq> None"
      by (auto simp: poolString_load_eq [OF len])
    then have "ps_contents (poolString_get poolString (headers request ! headerOf poolString)) = None
          \<longrightarrow> REQUEST_HEADERS_MAX_MEMORY - 1 \<le> headersStringPoolOffset request"
      by blast
    from poolStringAppendChar_invariant [OF inv k this, of c] obtain appended where
      "poolStringAppendChar request poolString c = Inr appended" "request_invariant appended"
      by (elim exE conjE)
    with bound show ?thesis by blast
  qed
  have 4: "state request \<noteq> RequestParseStateCRLFCR \<and> state request \<noteq> RequestParseStateBody \<longrightarrow>
          (\<exists>request' replay. requestParse_step request c = Inr (request', replay))"
    using requestParse_step_returns [OF inv] by blast
  have 5: "\<forall>request' replay. requestParse_step request c = Inr (request', replay) \<longrightarrow>
          headersStringPoolOffset request \<le> headersStringPoolOffset request'"
    using requestParse_step_invariant [OF inv] by blast
  from 1 2 3 4 5 show ?thesis by blast
qed

subsection \<open>The committed headers and the lookup of a header\<close>

text \<open>
  \<open>headerInRequest\<close> returns the first header whose name matches, when the headers
  before it have names; it returns NULL when every header has a name and none matches.
\<close>

lemma headerInRequest_loop_skip:
  assumes "i < headersCount request" "headersCount request \<le> length (headers request)"
    and "headerNamedOtherwise request i headerName"
  shows "headerInRequest_loop headerName request i = headerInRequest_loop headerName request (i + 1)"
  using assms
  by (subst headerInRequest_loop.simps)
     (auto simp add: load_at_def headerNamedOtherwise_def poolString_text_def
           simp del: headerInRequest_loop.simps split: option.splits sum.splits)

lemma headerInRequest_loop_match:
  assumes "i < headersCount request" "headersCount request \<le> length (headers request)"
    and "headerNamed request i headerName"
  shows "headerInRequest_loop headerName request i = Inr (Some (headers request ! i))"
  using assms
  by (subst headerInRequest_loop.simps)
     (auto simp add: load_at_def headerNamed_def poolString_text_def
           simp del: headerInRequest_loop.simps split: option.splits sum.splits)

lemma headerInRequest_loop_first:
  assumes "k < headersCount request" "headersCount request \<le> length (headers request)"
    and "\<forall>j<k. headerNamedOtherwise request j headerName"
    and "headerNamed request k headerName"
  shows "i \<le> k \<Longrightarrow> headerInRequest_loop headerName request i = Inr (Some (headers request ! k))"
proof (induction "k - i" arbitrary: i)
  case 0
  then have "i = k" by simp
  with headerInRequest_loop_match [OF assms(1,2,4)] show ?case by simp
next
  case (Suc n)
  then have lt: "i < k" and n: "n = k - (i + 1)" and le: "i + 1 \<le> k" by simp_all
  from lt assms(1) have "i < headersCount request" by simp
  moreover from lt assms(3) have "headerNamedOtherwise request i headerName" by simp
  ultimately have "headerInRequest_loop headerName request i
      = headerInRequest_loop headerName request (i + 1)"
    using assms(2) by (intro headerInRequest_loop_skip)
  with Suc.hyps(1) [OF n le] show ?case by simp
qed

lemma headerInRequest_loop_none:
  assumes "headersCount request \<le> length (headers request)"
    and "\<forall>j<headersCount request. headerNamedOtherwise request j headerName"
  shows "headerInRequest_loop headerName request i = Inr None"
proof (induction "headersCount request - i" arbitrary: i)
  case 0
  then show ?case by (subst headerInRequest_loop.simps) simp
next
  case (Suc n)
  then have lt: "i < headersCount request" and n: "n = headersCount request - (i + 1)"
    by simp_all
  from lt assms(2) have "headerNamedOtherwise request i headerName" by simp
  with lt assms(1) have "headerInRequest_loop headerName request i
      = headerInRequest_loop headerName request (i + 1)"
    by (intro headerInRequest_loop_skip)
  with Suc.hyps(1) [OF n] show ?case by simp
qed


lemma headers_committed_zeroRequest: "headers_committed zeroRequest"
  by (simp add: headers_committed_def zeroRequest_def zeroHeader_def zeroPoolString_def)

lemma poolStringStartNewString_committed:
  assumes "poolStringStartNewString poolString request = Inr request'"
    and "headers_committed request" "headersCount request \<le> headerOf poolString"
  shows "headers_committed request'"
  using assms
  by (cases poolString)
     (auto simp: poolStringStartNewString_def poolString_store_def load_at_def headerOf_def
           headers_committed_def nth_list_update split: if_splits sum.splits)

lemma poolStringAppendChar_committed:
  assumes "poolStringAppendChar request poolString c = Inr request'"
    and "headers_committed request" "request_invariant request"
    and "headersCount request \<le> headerOf poolString"
  shows "headers_committed request'"
proof (cases "headersStringPoolOffset request
                \<ge> REQUEST_HEADERS_MAX_MEMORY - 1 - sizeof_character_constant")
  case True
  with assms(1,2) show ?thesis
    by (auto simp: poolStringAppendChar_def headers_committed_def)
next
  case False
  let ?k = "headerOf poolString"
  let ?string = "poolString_get poolString (headers request ! ?k)"
  from assms(1) False have k: "?k < length (headers request)"
    by (cases poolString)
       (auto simp: poolStringAppendChar_def poolString_load_def load_at_def headerOf_def
             split: if_splits sum.splits)
  from assms(1) False k obtain contents where c: "ps_contents ?string = Some contents"
    by (cases "ps_contents ?string")
       (auto simp: poolStringAppendChar_def poolString_load_eq split: sum.splits)
  from assms(3) have inside: "headers_inside (headersStringPoolOffset request) (headers request)"
    by (simp add: request_invariant_def)
  from headers_inside_nth [OF inside k]
  have "poolString_inside (headersStringPoolOffset request) ?string"
    by (cases poolString) (simp_all add: poolString_get_def)
  with c have le: "contents + ps_length ?string \<le> headersStringPoolOffset request"
    by (simp add: poolString_inside_def)
  with False have ne: "contents + ps_length ?string \<noteq> REQUEST_HEADERS_MAX_MEMORY - 1"
    by simp
  from le False assms(3) have st:
    "store_at (headersStringPool request) (contents + ps_length ?string) c
      = Inr ((headersStringPool request)[contents + ps_length ?string := c])"
    by (simp add: store_at_def request_invariant_def)
  from assms(1) False k c st have r': "request' =
      request\<lparr>headersStringPool := (headersStringPool request)[contents + ps_length ?string := c],
              headersStringPoolOffset := headersStringPoolOffset request + 1,
              headers := (headers request)[?k :=
                poolString_put poolString (?string\<lparr>ps_length := ps_length ?string + 1\<rparr>)
                  (headers request ! ?k)]\<rparr>"
    by (simp add: poolStringAppendChar_def poolString_load_eq poolString_store_eq)
  from assms(2,4) k c ne show ?thesis
    unfolding r'
    by (cases poolString)
       (auto simp: headers_committed_def nth_list_update poolString_put_def poolString_get_def
             headerOf_def)
qed


lemma requestParse_HeaderName_committed:
  assumes "request_invariant request" "headers_committed request"
    and "requestParse_HeaderName request c = Inr (request', replay)"
  shows "headers_committed request'"
proof (cases "c = CHR '':'' \<or> c = CR \<or> \<not> headersCount request < REQUEST_MAX_HEADERS")
  case True
  with assms(2,3) show ?thesis
    by (auto simp: requestParse_HeaderName_def headers_committed_def split: if_splits)
next
  case False
  let ?k = "headersCount request"
  let ?ref = "NameOfHeader ?k"
  from False have k: "headerOf ?ref < REQUEST_MAX_HEADERS" by (simp add: headerOf_def)
  from assms(1) False have l: "load_at (headers request) ?k = Inr (headers request ! ?k)"
    by (simp add: load_at_def request_invariant_def)
  from assms(3) False l obtain request1 where
    s: "(if ps_contents (name (headers request ! ?k)) = None
         then poolStringStartNewString ?ref request else Inr request) = Inr request1"
    and a: "poolStringAppendChar request1 ?ref c = Inr request'"
    by (auto simp: requestParse_HeaderName_def split: sum.splits)
  have "request_invariant request1 \<and> headers_committed request1
      \<and> headersCount request1 = headersCount request"
  proof (cases "ps_contents (name (headers request ! ?k)) = None")
    case True
    with s have st: "poolStringStartNewString ?ref request = Inr request1" by simp
    from poolStringStartNewString_invariant [OF assms(1) k] st
    have "request_invariant request1" "headersCount request1 = headersCount request" by auto
    moreover from poolStringStartNewString_committed [OF st assms(2)]
    have "headers_committed request1" by (simp add: headerOf_def)
    ultimately show ?thesis by simp
  next
    case False
    with s assms(1,2) show ?thesis by simp
  qed
  then have r1: "request_invariant request1" "headers_committed request1"
    "headersCount request1 \<le> headerOf ?ref"
    by (simp_all add: headerOf_def)
  from poolStringAppendChar_committed [OF a r1(2,1,3)] show ?thesis .
qed

lemma requestParse_HeaderValue_committed:
  assumes "request_invariant request" "headers_committed request"
    and "requestParse_HeaderValue request c = Inr (request', replay)"
  shows "headers_committed request'"
proof (cases "headersCount request < REQUEST_MAX_HEADERS")
  case False
  with assms(2,3) show ?thesis
    by (auto simp: requestParse_HeaderValue_def headers_committed_def split: if_splits)
next
  case True
  let ?k = "headersCount request"
  let ?ref = "ValueOfHeader ?k"
  from True have k: "headerOf ?ref < REQUEST_MAX_HEADERS" by (simp add: headerOf_def)
  from assms(1) True have len: "?k < length (headers request)"
    by (simp add: request_invariant_def)
  then have l: "load_at (headers request) ?k = Inr (headers request ! ?k)"
    by (simp add: load_at_def)
  show ?thesis
  proof (cases "(c = CHR '' '' \<and> ps_length (value (headers request ! ?k)) = 0) \<or> c = CR")
    case skip: True
    from assms(2) len have "ps_length (value (headers request ! ?k)) > 0
        \<Longrightarrow> ps_contents (value (headers request ! ?k)) \<noteq> None"
      by (auto simp: headers_committed_def)
    with skip assms(2,3) True l show ?thesis
      by (auto simp: requestParse_HeaderValue_def headers_committed_def less_Suc_eq
            split: if_splits)
  next
    case False
    from assms(3) False True l obtain request1 where
      s: "(if ps_contents (value (headers request ! ?k)) = None
           then poolStringStartNewString ?ref request else Inr request) = Inr request1"
      and a: "poolStringAppendChar request1 ?ref c = Inr request'"
      by (auto simp: requestParse_HeaderValue_def split: sum.splits if_splits)
    have "request_invariant request1 \<and> headers_committed request1
        \<and> headersCount request1 = headersCount request"
    proof (cases "ps_contents (value (headers request ! ?k)) = None")
      case True
      with s have st: "poolStringStartNewString ?ref request = Inr request1" by simp
      from poolStringStartNewString_invariant [OF assms(1) k] st
      have "request_invariant request1" "headersCount request1 = headersCount request" by auto
      moreover from poolStringStartNewString_committed [OF st assms(2)]
      have "headers_committed request1" by (simp add: headerOf_def)
      ultimately show ?thesis by simp
    next
      case False
      with s assms(1,2) show ?thesis by simp
    qed
    then have r1: "request_invariant request1" "headers_committed request1"
      "headersCount request1 \<le> headerOf ?ref"
      by (simp_all add: headerOf_def)
    from poolStringAppendChar_committed [OF a r1(2,1,3)] show ?thesis .
  qed
qed

lemma requestParse_step_committed:
  assumes "request_invariant request" "headers_committed request"
    and "requestParse_step request c = Inr (request', replay)"
  shows "headers_committed request'"
proof (cases "state request")
  case RequestParseStateMethod
  with assms(2,3) show ?thesis
    by (auto simp: requestParse_step_def requestParse_Method_def headers_committed_def
          split: if_splits sum.splits)
next
  case RequestParseStatePath
  with assms(2,3) show ?thesis
    by (auto simp: requestParse_step_def requestParse_Path_def headers_committed_def
          split: if_splits sum.splits)
next
  case RequestParseStateVersion
  with assms(2,3) show ?thesis
    by (auto simp: requestParse_step_def requestParse_Version_def headers_committed_def
          split: if_splits sum.splits)
next
  case RequestParseStateHeaderName
  with assms(3) have "requestParse_HeaderName request c = Inr (request', replay)"
    by (simp add: requestParse_step_def)
  from requestParse_HeaderName_committed [OF assms(1,2) this] show ?thesis .
next
  case RequestParseStateHeaderValue
  with assms(3) have "requestParse_HeaderValue request c = Inr (request', replay)"
    by (simp add: requestParse_step_def)
  from requestParse_HeaderValue_committed [OF assms(1,2) this] show ?thesis .
next
  case RequestParseStateCR
  with assms(2,3) show ?thesis
    by (auto simp: requestParse_step_def requestParse_CR_def headers_committed_def
          split: if_splits)
next
  case RequestParseStateCRLF
  with assms(2,3) show ?thesis
    by (auto simp: requestParse_step_def requestParse_CRLF_def headers_committed_def
          split: if_splits)
next
  case RequestParseStateCRLFCR
  with assms(2,3) show ?thesis
    by (auto simp: requestParse_step_def requestParse_CRLFCR_def headers_committed_def Let_def
          split: if_splits sum.splits option.splits)
next
  case RequestParseStateBody
  with assms(2,3) show ?thesis
    by (auto simp: requestParse_step_def requestParse_Body_def headers_committed_def Let_def
          split: if_splits sum.splits)
next
  case RequestParseStateDone
  with assms(2,3) show ?thesis
    by (auto simp: requestParse_step_def requestParse_Done_def headers_committed_def
          split: if_splits)
qed

lemma requestParse_loop_committed:
  "request_invariant request \<Longrightarrow> headers_committed request \<Longrightarrow>
     requestParse_loop request requestFragment i = Inr request' \<Longrightarrow> headers_committed request'"
proof (induction request requestFragment i rule: requestParse_loop.induct)
  case (1 request requestFragment i)
  show ?case
  proof (cases "i < length requestFragment")
    case False
    with "1.prems" show ?thesis by (simp add: requestParse_loop.simps [of request])
  next
    case True
    with "1.prems"(3) obtain request1 replay where
      s: "requestParse_step request (requestFragment ! i) = Inr (request1, replay)"
      and l: "requestParse_loop request1 requestFragment (if replay then i else i + 1) = Inr request'"
      by (auto simp: requestParse_loop.simps [of request] split: sum.splits)
    from requestParse_step_invariant [OF "1.prems"(1) s]
    have i1: "request_invariant request1" by simp
    from requestParse_step_committed [OF "1.prems"(1,2) s]
    have c1: "headers_committed request1" .
    from "1.IH" [OF True s refl i1 c1 l] show ?thesis .
  qed
qed

lemma requestParse_chunks_committed:
  "request_invariant request \<Longrightarrow> headers_committed request \<Longrightarrow>
     requestParse_chunks request chunks = Inr request' \<Longrightarrow> headers_committed request'"
proof (induction chunks arbitrary: request)
  case Nil
  then show ?case by simp
next
  case (Cons chunk chunks)
  from Cons.prems(3) obtain request1 where
    c: "requestParse request chunk = Inr request1"
    and r: "requestParse_chunks request1 chunks = Inr request'"
    by (auto split: sum.splits)
  from requestParse_loop_invariant [OF Cons.prems(1) c [unfolded requestParse_def]]
  have i1: "request_invariant request1" .
  from requestParse_loop_committed [OF Cons.prems(1,2) c [unfolded requestParse_def]]
  have c1: "headers_committed request1" .
  from Cons.IH [OF i1 c1 r] show ?case .
qed

lemma poolString_text_readable:
  assumes "request_invariant request" "headers_committed request"
    and "poolString_inside (headersStringPoolOffset request) poolString"
    and "ps_contents poolString \<noteq> None"
  shows "\<exists>text. poolString_text request poolString = Some text"
proof -
  from assms(4) obtain contents where c: "ps_contents poolString = Some contents" by auto
  with assms(3) have "contents \<le> headersStringPoolOffset request"
    by (simp add: poolString_inside_def)
  with assms(1) have le: "contents \<le> REQUEST_HEADERS_MAX_MEMORY - 1"
    and len: "REQUEST_HEADERS_MAX_MEMORY - 1 < length (headersStringPool request)"
    by (simp_all add: request_invariant_def)
  from assms(2) have "headersStringPool request ! (REQUEST_HEADERS_MAX_MEMORY - 1) = NUL"
    by (simp add: headers_committed_def)
  moreover from le len have "drop contents (headersStringPool request)
        ! (REQUEST_HEADERS_MAX_MEMORY - 1 - contents)
      = headersStringPool request ! (contents + (REQUEST_HEADERS_MAX_MEMORY - 1 - contents))"
    by (intro nth_drop) simp
  moreover from le len have "drop contents (headersStringPool request)
        ! (REQUEST_HEADERS_MAX_MEMORY - 1 - contents)
      \<in> set (drop contents (headersStringPool request))"
    by (intro nth_mem) simp
  ultimately have "NUL \<in> set (drop contents (headersStringPool request))"
    using le by simp
  from cstring_at_returns [OF this] c show ?thesis
    by (auto simp: poolString_text_def)
qed

lemma committed_header_texts:
  assumes "requestParse_chunks zeroRequest chunks = Inr request" "k < headersCount request"
  shows "(\<exists>text. poolString_text request (value (headers request ! k)) = Some text)
       \<and> (ps_contents (name (headers request ! k)) \<noteq> None \<longrightarrow>
            (\<exists>text. poolString_text request (name (headers request ! k)) = Some text))"
proof -
  from requestParse_chunks_invariant [OF request_invariant_zeroRequest assms(1)]
  have inv: "request_invariant request" .
  from requestParse_chunks_committed
         [OF request_invariant_zeroRequest headers_committed_zeroRequest assms(1)]
  have com: "headers_committed request" .
  from com assms(2) inv have k: "k < length (headers request)"
    by (simp add: headers_committed_def request_invariant_def)
  from inv have "headers_inside (headersStringPoolOffset request) (headers request)"
    by (simp add: request_invariant_def)
  from headers_inside_nth [OF this k]
  have i: "poolString_inside (headersStringPoolOffset request) (name (headers request ! k))"
    "poolString_inside (headersStringPoolOffset request) (value (headers request ! k))"
    by simp_all
  from com assms(2) have "ps_contents (value (headers request ! k)) \<noteq> None"
    by (simp add: headers_committed_def)
  from poolString_text_readable [OF inv com i(2) this]
       poolString_text_readable [OF inv com i(1)]
  show ?thesis by blast
qed

lemma headerInRequest_first:
  assumes "requestParse_chunks zeroRequest chunks = Inr request"
    and "k < headersCount request"
    and "\<forall>j<k. headerNamedOtherwise request j headerName"
    and "headerNamed request k headerName"
  shows "headerInRequest headerName request = Inr (Some (headers request ! k))"
proof -
  from requestParse_chunks_invariant [OF request_invariant_zeroRequest assms(1)]
  have inv: "request_invariant request" .
  from requestParse_chunks_committed
         [OF request_invariant_zeroRequest headers_committed_zeroRequest assms(1)]
  have com: "headers_committed request" .
  from com inv have "headersCount request \<le> length (headers request)"
    by (simp add: headers_committed_def request_invariant_def)
  from headerInRequest_loop_first [OF assms(2) this assms(3,4), of 0] show ?thesis
    by (simp add: headerInRequest_def)
qed

lemma headerInRequest_none:
  assumes "requestParse_chunks zeroRequest chunks = Inr request"
    and "\<forall>j<headersCount request. headerNamedOtherwise request j headerName"
  shows "headerInRequest headerName request = Inr None"
proof -
  from requestParse_chunks_invariant [OF request_invariant_zeroRequest assms(1)]
  have inv: "request_invariant request" .
  from requestParse_chunks_committed
         [OF request_invariant_zeroRequest headers_committed_zeroRequest assms(1)]
  have com: "headers_committed request" .
  from com inv have "headersCount request \<le> length (headers request)"
    by (simp add: headers_committed_def request_invariant_def)
  from headerInRequest_loop_none [OF this assms(2), of 0] show ?thesis
    by (simp add: headerInRequest_def)
qed

subsection \<open>Sending a response\<close>

lemma decimal_nat_200: "decimal_nat 200 = ''200''"
  by (simp add: decimal_nat.simps [of 200] decimal_nat.simps [of 20] decimal_nat.simps [of 2])

text \<open>
  C4, as the code has it. For a response with a status, a content type and a body of
  \<open>n > 0\<close> bytes, on a socket that takes the bytes it is given, \<open>sendResponseBody\<close>
  returns 0 and has put on the wire the header block with its four lines (status line,
  \<open>Content-Type\<close>, \<open>Content-Length\<close> with \<open>n\<close> in decimal, \<open>Server\<close>), the empty
  line and exactly the \<open>n\<close> bytes of the body, provided the header block is shorter
  than the 1024 bytes of \<open>responseHeader\<close>.
\<close>

theorem sendResponseBody_wire:
  assumes "status response = Some status'"
    and "contentType response = Some contentType'"
    and "0 < hs_length (Response.body response)" "hs_length (Response.body response) < 2 ^ 63"
    and "load_bytes (hs_contents (Response.body response)) (hs_length (Response.body response)) = Inr bytes"
    and "header = ''HTTP/1.0 '' @ decimal_int (code response) @ '' '' @ status' @ [CR, LF]
                @ ''Content-Type: '' @ contentType' @ [CR, LF]
                @ ''Content-Length: '' @ decimal_nat (hs_length (Response.body response)) @ [CR, LF]
                @ ''Server: Embeddable Web Server/1.0.0'' @ [CR, LF]
                @ [CR, LF]"
    and "length header < RESPONSE_HEADER_SIZE"
    and "length (responseHeader connection) = RESPONSE_HEADER_SIZE"
    and "sendReturns connection
           = int (length header) # int (hs_length (Response.body response)) # rest"
  shows "sendResponseBody connection response bytesSent =
           Inr (0,
                connection\<lparr>responseHeader :=
                             header @ [NUL] @ drop (length header + 1) (responseHeader connection),
                           wire := wire connection @ header @ bytes,
                           sendReturns := rest\<rparr>,
                bytesSent + int (length header) + int (hs_length (Response.body response)))"
proof -
  have hdr: "responseHeaderText (code response) status' contentType'
                (hs_length (Response.body response)) = header"
    using assms(4) by (simp add: responseHeaderText_def assms(6) long_of_size_t_def decimal_int_def)
  have sn: "snprintf (responseHeader connection) RESPONSE_HEADER_SIZE header
              = (header @ [NUL] @ drop (length header + 1) (responseHeader connection),
                 int (length header))"
    using assms(7) by (simp add: snprintf_def Let_def)
  have len: "length bytes = hs_length (Response.body response)"
    using assms(5) by (auto simp: load_bytes_def split: if_splits option.splits)
  show ?thesis
    using assms(1,2,3,5,7,8,9) len
    by (simp add: sendResponseBody_def hdr sn send_def)
qed

theorem sendResponseBody_wire_witness:
  "sendResponseBody
     \<lparr>responseHeader = replicate RESPONSE_HEADER_SIZE NUL, wire = [], sendReturns = [100, 2]\<rparr>
     \<lparr>code = 200,
      body = \<lparr>hs_contents = Some [CHR ''h'', CHR ''i'', NUL], hs_length = 2, hs_capacity = 3\<rparr>,
      filenameToSend = None, status = Some ''OK'', contentType = Some ''text/html''\<rparr>
     0
   = Inr (0,
          \<lparr>responseHeader =
             ''HTTP/1.0 200 OK'' @ [CR, LF] @ ''Content-Type: text/html'' @ [CR, LF]
             @ ''Content-Length: 2'' @ [CR, LF]
             @ ''Server: Embeddable Web Server/1.0.0'' @ [CR, LF] @ [CR, LF]
             @ [NUL] @ replicate 923 NUL,
           wire =
             ''HTTP/1.0 200 OK'' @ [CR, LF] @ ''Content-Type: text/html'' @ [CR, LF]
             @ ''Content-Length: 2'' @ [CR, LF]
             @ ''Server: Embeddable Web Server/1.0.0'' @ [CR, LF] @ [CR, LF]
             @ ''hi'',
           sendReturns = []\<rparr>,
          102)"
  using sendResponseBody_wire
    [of "\<lparr>code = 200,
          body = \<lparr>hs_contents = Some [CHR ''h'', CHR ''i'', NUL], hs_length = 2, hs_capacity = 3\<rparr>,
          filenameToSend = None, status = Some ''OK'', contentType = Some ''text/html''\<rparr>"
        "''OK''" "''text/html''" "''hi''"
        "''HTTP/1.0 200 OK'' @ [CR, LF] @ ''Content-Type: text/html'' @ [CR, LF]
         @ ''Content-Length: 2'' @ [CR, LF]
         @ ''Server: Embeddable Web Server/1.0.0'' @ [CR, LF] @ [CR, LF]"
        "\<lparr>responseHeader = replicate RESPONSE_HEADER_SIZE NUL, wire = [], sendReturns = [100, 2]\<rparr>"
        "[]" 0]
  by (simp add: decimal_nat_200 decimal_int_def load_bytes_def)

text \<open>
  C4 as it is stated fails for every response: the header block has a fourth line,
  \<open>Server: Embeddable Web Server/1.0.0\<close>. Here for the body \<open>hi\<close>, on a socket
  that takes all the bytes it is given.
\<close>

theorem sendResponseBody_Server_line_counterexample:
  "sendResponseBody
     \<lparr>responseHeader = replicate RESPONSE_HEADER_SIZE NUL, wire = [], sendReturns = [100, 2]\<rparr>
     \<lparr>code = 200,
      body = \<lparr>hs_contents = Some [CHR ''h'', CHR ''i'', NUL], hs_length = 2, hs_capacity = 3\<rparr>,
      filenameToSend = None, status = Some ''OK'', contentType = Some ''text/html''\<rparr>
     0
   \<noteq> Inr (0,
          \<lparr>responseHeader =
             ''HTTP/1.0 200 OK'' @ [CR, LF] @ ''Content-Type: text/html'' @ [CR, LF]
             @ ''Content-Length: 2'' @ [CR, LF] @ [CR, LF]
             @ [NUL] @ replicate 962 NUL,
           wire =
             ''HTTP/1.0 200 OK'' @ [CR, LF] @ ''Content-Type: text/html'' @ [CR, LF]
             @ ''Content-Length: 2'' @ [CR, LF] @ [CR, LF]
             @ ''hi'',
           sendReturns = []\<rparr>,
          65)
   \<and> wire (fst (snd (projr (sendResponseBody
       \<lparr>responseHeader = replicate RESPONSE_HEADER_SIZE NUL, wire = [], sendReturns = [100, 2]\<rparr>
       \<lparr>code = 200,
        body = \<lparr>hs_contents = Some [CHR ''h'', CHR ''i'', NUL], hs_length = 2, hs_capacity = 3\<rparr>,
        filenameToSend = None, status = Some ''OK'', contentType = Some ''text/html''\<rparr>
       0))))
     = ''HTTP/1.0 200 OK'' @ [CR, LF] @ ''Content-Type: text/html'' @ [CR, LF]
       @ ''Content-Length: 2'' @ [CR, LF]
       @ ''Server: Embeddable Web Server/1.0.0'' @ [CR, LF] @ [CR, LF]
       @ ''hi''"
  by (simp add: sendResponseBody_def snprintf_def send_def responseHeaderText_def
        decimal_nat_200 decimal_int_def long_of_size_t_def load_bytes_def Let_def)

subsection \<open>Running the parser on given bytes\<close>

text \<open>
  The equations that evaluate the parser on bytes that are given. The arrays of the
  zeroed request stay \<open>replicate\<close> terms; only the elements written to are spelt
  out. The bytes are given in small chunks, as \<open>recv\<close> may deliver them.
\<close>

lemma list_update_replicate_0:
  "0 < n \<Longrightarrow> (replicate n x)[0 := y] = y # replicate (n - 1) x"
  by (cases n) simp_all

lemma list_update_replicate_Suc:
  "0 < n \<Longrightarrow> (replicate n x)[Suc i := y] = x # (replicate (n - 1) x)[i := y]"
  by (cases n) simp_all

lemmas requestParse_eval =
  requestParse_def requestParse_loop.simps requestParse_step_def
  requestParse_Method_def requestParse_Path_def requestParse_Version_def
  requestParse_HeaderName_def requestParse_HeaderValue_def requestParse_CR_def
  requestParse_CRLF_def requestParse_CRLFCR_def requestParse_Body_def requestParse_Done_def
  poolStringStartNewString_def poolStringAppendChar_def poolString_load_def poolString_store_def
  load_at_def store_at_def store_byte_def cstring_at_def URLDecode_def size_t_def
  zeroRequest_def zeroHeader_def zeroPoolString_def zeroWarnings_def
  list_update_replicate_0 list_update_replicate_Suc

text \<open>An instance of C10: the request after \<open>GET / HTTP/1.0\<close> and \<open>Host: x\<close>.\<close>

theorem headersStringPool_safe_witness:
  "\<exists>request.
     requestParse_chunks zeroRequest [''GET / HTT'', ''P/1.0'' @ [CR, LF], ''Host: x''] = Inr request
   \<and> state request = RequestParseStateHeaderValue
   \<and> headersStringPoolOffset request = 6
   \<and> headersStringPoolOffset request \<le> REQUEST_HEADERS_MAX_MEMORY - 1
   \<and> (\<exists>appended. poolStringAppendChar request (ValueOfHeader 0) (CHR ''y'') = Inr appended)
   \<and> (\<exists>request' replay. requestParse_step request (CHR ''y'') = Inr (request', replay))"
proof -
  have "\<exists>request.
     requestParse_chunks zeroRequest [''GET / HTT'', ''P/1.0'' @ [CR, LF], ''Host: x''] = Inr request
   \<and> state request = RequestParseStateHeaderValue
   \<and> headersStringPoolOffset request = 6
   \<and> poolString_load request (ValueOfHeader 0) = Inr \<lparr>ps_contents = Some 5, ps_length = 1\<rparr>"
    by (simp add: requestParse_eval)
  then obtain request where r:
    "requestParse_chunks zeroRequest [''GET / HTT'', ''P/1.0'' @ [CR, LF], ''Host: x''] = Inr request"
    and s: "state request = RequestParseStateHeaderValue"
       "headersStringPoolOffset request = 6"
       "poolString_load request (ValueOfHeader 0) = Inr \<lparr>ps_contents = Some 5, ps_length = 1\<rparr>"
    by (elim exE conjE)
  have k: "(0::nat) < REQUEST_MAX_HEADERS" by simp
  from headersStringPool_safe [OF r k, of "ValueOfHeader 0" "CHR ''y''"] r s
  show ?thesis by auto
qed

subsection \<open>The end of the header block\<close>

lemma requestParse_single:
  "requestParse_step request c = Inr (request', False) \<Longrightarrow>
     requestParse request [c] = Inr request'"
  by (simp add: requestParse_def requestParse_loop.simps [of request]
        requestParse_loop.simps [of request'])

lemma body_before_Body:
  assumes "requestParse_chunks zeroRequest chunks = Inr request"
    and "state request = RequestParseStateCRLFCR"
  shows "body request = \<lparr>hs_contents = None, hs_length = 0, hs_capacity = 0\<rparr>"
  using requestParse_chunks_invariant [OF request_invariant_zeroRequest assms(1)] assms(2)
  by (simp add: request_invariant_def)

lemma request_body_same:
  "body request = b \<Longrightarrow> request\<lparr>body := b, state := s\<rparr> = request\<lparr>state := s\<rparr>"
  by (cases request) simp

text \<open>
  C5, as the code has it. Take a request that parsing has reached from the
  zero-initialized one and that is in the state \<open>CRLFCR\<close>; its body is still empty.
  The \<open>Content-Length\<close> header that counts is the first header, in the order of
  arrival, whose name matches \<open>Content-Length\<close> without regard to case, the headers
  before it having names that do not match. When \<open>requestParse\<close> is given the LF: if
  every header has a name and none matches, the state becomes \<open>Done\<close> and nothing
  else changes; if \<open>sscanf\<close> converts no integer from the value of the first header
  that matches, the state becomes \<open>Done\<close> and nothing else changes, whatever the
  headers after it are; if \<open>sscanf\<close> converts \<open>n \<ge> 0\<close> from it, the capacity of the
  body is \<open>n\<close> clamped to \<open>REQUEST_MAX_BODY_LENGTH\<close>, its length 0, its block that
  many zeroed bytes and one more for the terminator (no block for the capacity 0), and
  the state becomes \<open>Body\<close>. Every header that has been committed has a value that
  can be read, and a name that can be read unless its \<open>name.contents\<close> is NULL.
\<close>

theorem requestParse_terminator_first_ContentLength:
  assumes "requestParse_chunks zeroRequest chunks = Inr request"
    and "state request = RequestParseStateCRLFCR"
  shows "((\<forall>j<headersCount request. headerNamedOtherwise request j ''Content-Length'') \<longrightarrow>
            requestParse request [LF] = Inr (request\<lparr>state := RequestParseStateDone\<rparr>)
          \<and> body request = \<lparr>hs_contents = None, hs_length = 0, hs_capacity = 0\<rparr>)
       \<and> (k < headersCount request
          \<and> (\<forall>j<k. headerNamedOtherwise request j ''Content-Length'')
          \<and> headerNamed request k ''Content-Length'' \<longrightarrow>
            (\<exists>text. poolString_text request (value (headers request ! k)) = Some text
               \<and> (sscanf_ld text = None \<longrightarrow>
                    requestParse request [LF] = Inr (request\<lparr>state := RequestParseStateDone\<rparr>)
                  \<and> body request = \<lparr>hs_contents = None, hs_length = 0, hs_capacity = 0\<rparr>)
               \<and> (\<forall>n. sscanf_ld text = Some n \<and> 0 \<le> n \<longrightarrow>
                    requestParse request [LF] =
                      Inr (request\<lparr>body :=
                             \<lparr>hs_contents =
                                (if 0 < min n REQUEST_MAX_BODY_LENGTH
                                 then Some (replicate (nat (min n REQUEST_MAX_BODY_LENGTH) + 1) NUL)
                                 else None),
                              hs_length = 0,
                              hs_capacity = nat (min n REQUEST_MAX_BODY_LENGTH)\<rparr>,
                           state := RequestParseStateBody\<rparr>))))
       \<and> (\<forall>j<headersCount request. ps_contents (name (headers request ! j)) \<noteq> None \<longrightarrow>
            (\<exists>text. poolString_text request (name (headers request ! j)) = Some text))"
proof -
  note b = body_before_Body [OF assms]
  have 1: "requestParse request [LF] = Inr (request\<lparr>state := RequestParseStateDone\<rparr>)"
    if "\<forall>j<headersCount request. headerNamedOtherwise request j ''Content-Length''"
    using headerInRequest_none [OF assms(1) that] assms(2)
    by (intro requestParse_single) (simp add: requestParse_step_def requestParse_CRLFCR_def)
  have 2: "\<exists>text. poolString_text request (value (headers request ! k)) = Some text
               \<and> (sscanf_ld text = None \<longrightarrow>
                    requestParse request [LF] = Inr (request\<lparr>state := RequestParseStateDone\<rparr>)
                  \<and> body request = \<lparr>hs_contents = None, hs_length = 0, hs_capacity = 0\<rparr>)
               \<and> (\<forall>n. sscanf_ld text = Some n \<and> 0 \<le> n \<longrightarrow>
                    requestParse request [LF] =
                      Inr (request\<lparr>body :=
                             \<lparr>hs_contents =
                                (if 0 < min n REQUEST_MAX_BODY_LENGTH
                                 then Some (replicate (nat (min n REQUEST_MAX_BODY_LENGTH) + 1) NUL)
                                 else None),
                              hs_length = 0,
                              hs_capacity = nat (min n REQUEST_MAX_BODY_LENGTH)\<rparr>,
                           state := RequestParseStateBody\<rparr>))"
    if k: "k < headersCount request"
      and o: "\<forall>j<k. headerNamedOtherwise request j ''Content-Length''"
      and m: "headerNamed request k ''Content-Length''"
  proof -
    note h = headerInRequest_first [OF assms(1) k o m]
    from committed_header_texts [OF assms(1) k] obtain valueText where
      t: "poolString_text request (value (headers request ! k)) = Some valueText" by blast
    then obtain contents where c: "ps_contents (value (headers request ! k)) = Some contents"
      and s: "cstring_at (headersStringPool request) contents = Inr valueText"
      by (auto simp: poolString_text_def split: option.splits sum.splits)
    have d: "requestParse request [LF] = Inr (request\<lparr>state := RequestParseStateDone\<rparr>)"
      if "sscanf_ld valueText = None"
      using that h c s assms(2)
      by (intro requestParse_single) (simp add: requestParse_step_def requestParse_CRLFCR_def)
    have e: "requestParse request [LF] =
                      Inr (request\<lparr>body :=
                             \<lparr>hs_contents =
                                (if 0 < min n REQUEST_MAX_BODY_LENGTH
                                 then Some (replicate (nat (min n REQUEST_MAX_BODY_LENGTH) + 1) NUL)
                                 else None),
                              hs_length = 0,
                              hs_capacity = nat (min n REQUEST_MAX_BODY_LENGTH)\<rparr>,
                           state := RequestParseStateBody\<rparr>)"
      if "sscanf_ld valueText = Some n" "0 \<le> n" for n
      using that h c s assms(2) b
      by (intro requestParse_single)
         (auto simp: requestParse_step_def requestParse_CRLFCR_def Let_def min_def
               simp del: replicate.simps replicate_Suc)
    show ?thesis
    proof (intro exI [of _ valueText] conjI impI allI)
      show "poolString_text request (value (headers request ! k)) = Some valueText" by (rule t)
    next
      assume "sscanf_ld valueText = None"
      then show "requestParse request [LF] = Inr (request\<lparr>state := RequestParseStateDone\<rparr>)"
        by (rule d)
    next
      show "body request = \<lparr>hs_contents = None, hs_length = 0, hs_capacity = 0\<rparr>" by (rule b)
    next
      fix n
      assume "sscanf_ld valueText = Some n \<and> 0 \<le> n"
      then have "sscanf_ld valueText = Some n" "0 \<le> n" by simp_all
      then show "requestParse request [LF] =
                      Inr (request\<lparr>body :=
                             \<lparr>hs_contents =
                                (if 0 < min n REQUEST_MAX_BODY_LENGTH
                                 then Some (replicate (nat (min n REQUEST_MAX_BODY_LENGTH) + 1) NUL)
                                 else None),
                              hs_length = 0,
                              hs_capacity = nat (min n REQUEST_MAX_BODY_LENGTH)\<rparr>,
                           state := RequestParseStateBody\<rparr>)"
        by (rule e)
    qed
  qed
  have 3: "\<exists>text. poolString_text request (name (headers request ! j)) = Some text"
    if "j < headersCount request" "ps_contents (name (headers request ! j)) \<noteq> None" for j
    using committed_header_texts [OF assms(1) that(1)] that(2) by blast
  show ?thesis
  proof (intro conjI impI allI)
    assume "\<forall>j<headersCount request. headerNamedOtherwise request j ''Content-Length''"
    then show "requestParse request [LF] = Inr (request\<lparr>state := RequestParseStateDone\<rparr>)"
      by (rule 1)
  next
    show "body request = \<lparr>hs_contents = None, hs_length = 0, hs_capacity = 0\<rparr>" by (rule b)
  next
    assume "k < headersCount request
          \<and> (\<forall>j<k. headerNamedOtherwise request j ''Content-Length'')
          \<and> headerNamed request k ''Content-Length''"
    then have a: "k < headersCount request"
      "\<forall>j<k. headerNamedOtherwise request j ''Content-Length''"
      "headerNamed request k ''Content-Length''"
      by simp_all
    from 2 [OF a] show "\<exists>text. poolString_text request (value (headers request ! k)) = Some text
               \<and> (sscanf_ld text = None \<longrightarrow>
                    requestParse request [LF] = Inr (request\<lparr>state := RequestParseStateDone\<rparr>)
                  \<and> body request = \<lparr>hs_contents = None, hs_length = 0, hs_capacity = 0\<rparr>)
               \<and> (\<forall>n. sscanf_ld text = Some n \<and> 0 \<le> n \<longrightarrow>
                    requestParse request [LF] =
                      Inr (request\<lparr>body :=
                             \<lparr>hs_contents =
                                (if 0 < min n REQUEST_MAX_BODY_LENGTH
                                 then Some (replicate (nat (min n REQUEST_MAX_BODY_LENGTH) + 1) NUL)
                                 else None),
                              hs_length = 0,
                              hs_capacity = nat (min n REQUEST_MAX_BODY_LENGTH)\<rparr>,
                           state := RequestParseStateBody\<rparr>))" .
  next
    fix j
    assume "j < headersCount request" "ps_contents (name (headers request ! j)) \<noteq> None"
    then show "\<exists>text. poolString_text request (name (headers request ! j)) = Some text"
      by (rule 3)
  qed
qed

text \<open>
  C9, as the code has it. Take a request that parsing has reached from the
  zero-initialized one and that is in the state \<open>CRLFCR\<close>. When \<open>sscanf\<close> converts
  \<open>n \<le> 0\<close> from the value of the first header whose name matches \<open>Content-Length\<close>
  without regard to case, the headers before it having names that do not match: after
  the LF the state is \<open>Body\<close>, not \<open>Done\<close>, the capacity of the body is 0 and it has
  no block; no other field has changed.
\<close>

theorem requestParse_first_ContentLength_zero_stays_Body:
  assumes "requestParse_chunks zeroRequest chunks = Inr request"
    and "state request = RequestParseStateCRLFCR"
    and "k < headersCount request"
    and "\<forall>j<k. headerNamedOtherwise request j ''Content-Length''"
    and "headerNamed request k ''Content-Length''"
    and "poolString_text request (value (headers request ! k)) = Some text"
    and "sscanf_ld text = Some n" and "n \<le> 0"
  shows "\<exists>request'.
           requestParse request [LF] = Inr request'
         \<and> request' = request\<lparr>state := RequestParseStateBody\<rparr>
         \<and> state request' = RequestParseStateBody
         \<and> state request' \<noteq> RequestParseStateDone
         \<and> hs_capacity (body request') = 0
         \<and> hs_length (body request') = 0
         \<and> hs_contents (body request') = None"
proof -
  note b = body_before_Body [OF assms(1,2)]
  note h = headerInRequest_first [OF assms(1,3,4,5)]
  from assms(6) obtain contents where c: "ps_contents (value (headers request ! k)) = Some contents"
    and s: "cstring_at (headersStringPool request) contents = Inr text"
    by (auto simp: poolString_text_def split: option.splits sum.splits)
  have "requestParse_step request LF =
          Inr (request\<lparr>body := \<lparr>hs_contents = None, hs_length = 0, hs_capacity = 0\<rparr>,
                       state := RequestParseStateBody\<rparr>, False)"
    using assms(2,7,8) h c s b
    by (simp add: requestParse_step_def requestParse_CRLFCR_def Let_def)
  then have "requestParse request [LF] = Inr (request\<lparr>state := RequestParseStateBody\<rparr>)"
    by (simp add: requestParse_single request_body_same [OF b])
  with b show ?thesis by simp
qed

lemma tolower_examples:
  "tolower (CHR ''C'') = CHR ''c''" "tolower (CHR ''c'') = CHR ''c''"
  "tolower (CHR ''L'') = CHR ''l''" "tolower (CHR ''l'') = CHR ''l''"
  by code_simp+

lemma sscanf_ld_examples:
  "sscanf_ld ''5'' = Some 5" "sscanf_ld ''abc'' = None" "sscanf_ld ''0'' = Some 0"
  "sscanf_ld ''-7'' = Some (- 7)"
  by code_simp+

lemmas headerInRequest_eval =
  headerInRequest_def strcasecmp_is_0_def tolower_examples

lemmas headerBlock_eval =
  headerNamed_def headerNamedOtherwise_def poolString_text_def

theorem requestParse_terminator_first_ContentLength_witness:
  "(\<exists>request.
      requestParse_chunks zeroRequest
        [''GET / HT'', ''TP/1.0'' @ [CR, LF], ''Host: x'', [CR, LF, CR]] = Inr request
    \<and> state request = RequestParseStateCRLFCR
    \<and> headersCount request = 1
    \<and> headerNamedOtherwise request 0 ''Content-Length''
    \<and> requestParse request [LF] = Inr (request\<lparr>state := RequestParseStateDone\<rparr>))
   \<and> (\<exists>request.
      requestParse_chunks zeroRequest
        [''POST / H'', ''TTP/1.0'' @ [CR, LF], ''Host: x'', [CR, LF],
         ''Content-'', ''Length: '', ''abc'' @ [CR, LF, CR]] = Inr request
    \<and> state request = RequestParseStateCRLFCR
    \<and> headersCount request = 2
    \<and> headerNamedOtherwise request 0 ''Content-Length''
    \<and> headerNamed request 1 ''Content-Length''
    \<and> poolString_text request (value (headers request ! 1)) = Some ''abc''
    \<and> requestParse request [LF] = Inr (request\<lparr>state := RequestParseStateDone\<rparr>))
   \<and> (\<exists>request.
      requestParse_chunks zeroRequest
        [''POST / H'', ''TTP/1.0'' @ [CR, LF], ''Host: x'', [CR, LF],
         ''content-'', ''length: '', ''5'' @ [CR, LF, CR]] = Inr request
    \<and> state request = RequestParseStateCRLFCR
    \<and> headersCount request = 2
    \<and> headerNamedOtherwise request 0 ''Content-Length''
    \<and> headerNamed request 1 ''Content-Length''
    \<and> poolString_text request (value (headers request ! 1)) = Some ''5''
    \<and> requestParse request [LF] =
          Inr (request\<lparr>body := \<lparr>hs_contents = Some (replicate 6 NUL), hs_length = 0,
                                 hs_capacity = 5\<rparr>,
                       state := RequestParseStateBody\<rparr>))"
proof -
  have "\<exists>request.
      requestParse_chunks zeroRequest
        [''GET / HT'', ''TP/1.0'' @ [CR, LF], ''Host: x'', [CR, LF, CR]] = Inr request
    \<and> state request = RequestParseStateCRLFCR
    \<and> headersCount request = 1
    \<and> headerNamedOtherwise request 0 ''Content-Length''"
    by (simp add: requestParse_eval headerBlock_eval headerInRequest_eval)
  then obtain request1 where r1:
    "requestParse_chunks zeroRequest
        [''GET / HT'', ''TP/1.0'' @ [CR, LF], ''Host: x'', [CR, LF, CR]] = Inr request1"
    "state request1 = RequestParseStateCRLFCR"
    "headersCount request1 = 1"
    "headerNamedOtherwise request1 0 ''Content-Length''"
    by (elim exE conjE)
  have "\<exists>request.
      requestParse_chunks zeroRequest
        [''POST / H'', ''TTP/1.0'' @ [CR, LF], ''Host: x'', [CR, LF],
         ''Content-'', ''Length: '', ''abc'' @ [CR, LF, CR]] = Inr request
    \<and> state request = RequestParseStateCRLFCR
    \<and> headersCount request = 2
    \<and> headerNamedOtherwise request 0 ''Content-Length''
    \<and> headerNamed request 1 ''Content-Length''
    \<and> poolString_text request (value (headers request ! 1)) = Some ''abc''"
    by (simp add: requestParse_eval headerBlock_eval headerInRequest_eval)
  then obtain request2 where r2:
    "requestParse_chunks zeroRequest
        [''POST / H'', ''TTP/1.0'' @ [CR, LF], ''Host: x'', [CR, LF],
         ''Content-'', ''Length: '', ''abc'' @ [CR, LF, CR]] = Inr request2"
    "state request2 = RequestParseStateCRLFCR"
    "headersCount request2 = 2"
    "headerNamedOtherwise request2 0 ''Content-Length''"
    "headerNamed request2 1 ''Content-Length''"
    "poolString_text request2 (value (headers request2 ! 1)) = Some ''abc''"
    by (elim exE conjE)
  have "\<exists>request.
      requestParse_chunks zeroRequest
        [''POST / H'', ''TTP/1.0'' @ [CR, LF], ''Host: x'', [CR, LF],
         ''content-'', ''length: '', ''5'' @ [CR, LF, CR]] = Inr request
    \<and> state request = RequestParseStateCRLFCR
    \<and> headersCount request = 2
    \<and> headerNamedOtherwise request 0 ''Content-Length''
    \<and> headerNamed request 1 ''Content-Length''
    \<and> poolString_text request (value (headers request ! 1)) = Some ''5''"
    by (simp add: requestParse_eval headerBlock_eval headerInRequest_eval)
  then obtain request3 where r3:
    "requestParse_chunks zeroRequest
        [''POST / H'', ''TTP/1.0'' @ [CR, LF], ''Host: x'', [CR, LF],
         ''content-'', ''length: '', ''5'' @ [CR, LF, CR]] = Inr request3"
    "state request3 = RequestParseStateCRLFCR"
    "headersCount request3 = 2"
    "headerNamedOtherwise request3 0 ''Content-Length''"
    "headerNamed request3 1 ''Content-Length''"
    "poolString_text request3 (value (headers request3 ! 1)) = Some ''5''"
    by (elim exE conjE)
  from requestParse_terminator_first_ContentLength [OF r1(1,2)] r1(3,4)
  have 1: "requestParse request1 [LF] = Inr (request1\<lparr>state := RequestParseStateDone\<rparr>)"
    by simp
  from requestParse_terminator_first_ContentLength [OF r2(1,2), of 1] r2(3,4,5,6)
  have 2: "requestParse request2 [LF] = Inr (request2\<lparr>state := RequestParseStateDone\<rparr>)"
    by (simp add: sscanf_ld_examples)
  from requestParse_terminator_first_ContentLength [OF r3(1,2), of 1] r3(3,4,5,6)
  have 3: "requestParse request3 [LF] =
          Inr (request3\<lparr>body := \<lparr>hs_contents = Some (replicate 6 NUL), hs_length = 0,
                                  hs_capacity = 5\<rparr>,
                        state := RequestParseStateBody\<rparr>)"
    by (simp add: sscanf_ld_examples del: replicate.simps replicate_Suc)
  from r1 1 r2 2 r3 3 show ?thesis by blast
qed

theorem requestParse_first_ContentLength_zero_stays_Body_witness:
  "(\<exists>request request'.
      requestParse_chunks zeroRequest
        [''POST / H'', ''TTP/1.0'' @ [CR, LF], ''Host: x'', [CR, LF],
         ''Content-'', ''Length: '', ''0'' @ [CR, LF, CR]] = Inr request
    \<and> state request = RequestParseStateCRLFCR
    \<and> headersCount request = 2
    \<and> headerNamedOtherwise request 0 ''Content-Length''
    \<and> headerNamed request 1 ''Content-Length''
    \<and> poolString_text request (value (headers request ! 1)) = Some ''0''
    \<and> requestParse request [LF] = Inr request'
    \<and> state request' = RequestParseStateBody
    \<and> hs_capacity (body request') = 0 \<and> hs_contents (body request') = None)
   \<and> (\<exists>request request'.
      requestParse_chunks zeroRequest
        [''POST / H'', ''TTP/1.0'' @ [CR, LF], ''Content-'', ''Length: '', ''-7'' @ [CR, LF, CR]] = Inr request
    \<and> state request = RequestParseStateCRLFCR
    \<and> headersCount request = 1
    \<and> headerNamed request 0 ''Content-Length''
    \<and> poolString_text request (value (headers request ! 0)) = Some ''-7''
    \<and> requestParse request [LF] = Inr request'
    \<and> state request' = RequestParseStateBody
    \<and> hs_capacity (body request') = 0 \<and> hs_contents (body request') = None)"
proof -
  have "\<exists>request.
      requestParse_chunks zeroRequest
        [''POST / H'', ''TTP/1.0'' @ [CR, LF], ''Host: x'', [CR, LF],
         ''Content-'', ''Length: '', ''0'' @ [CR, LF, CR]] = Inr request
    \<and> state request = RequestParseStateCRLFCR
    \<and> headersCount request = 2
    \<and> headerNamedOtherwise request 0 ''Content-Length''
    \<and> headerNamed request 1 ''Content-Length''
    \<and> poolString_text request (value (headers request ! 1)) = Some ''0''"
    by (simp add: requestParse_eval headerBlock_eval headerInRequest_eval)
  then obtain request1 where r1:
    "requestParse_chunks zeroRequest
        [''POST / H'', ''TTP/1.0'' @ [CR, LF], ''Host: x'', [CR, LF],
         ''Content-'', ''Length: '', ''0'' @ [CR, LF, CR]] = Inr request1"
    "state request1 = RequestParseStateCRLFCR"
    "headersCount request1 = 2"
    "headerNamedOtherwise request1 0 ''Content-Length''"
    "headerNamed request1 1 ''Content-Length''"
    "poolString_text request1 (value (headers request1 ! 1)) = Some ''0''"
    by (elim exE conjE)
  have "\<exists>request.
      requestParse_chunks zeroRequest
        [''POST / H'', ''TTP/1.0'' @ [CR, LF], ''Content-'', ''Length: '', ''-7'' @ [CR, LF, CR]] = Inr request
    \<and> state request = RequestParseStateCRLFCR
    \<and> headersCount request = 1
    \<and> headerNamed request 0 ''Content-Length''
    \<and> poolString_text request (value (headers request ! 0)) = Some ''-7''"
    by (simp add: requestParse_eval headerBlock_eval headerInRequest_eval)
  then obtain request2 where r2:
    "requestParse_chunks zeroRequest
        [''POST / H'', ''TTP/1.0'' @ [CR, LF], ''Content-'', ''Length: '', ''-7'' @ [CR, LF, CR]] = Inr request2"
    "state request2 = RequestParseStateCRLFCR"
    "headersCount request2 = 1"
    "headerNamed request2 0 ''Content-Length''"
    "poolString_text request2 (value (headers request2 ! 0)) = Some ''-7''"
    by (elim exE conjE)
  have k1: "1 < headersCount request1" using r1(3) by simp
  have o1: "\<forall>j<1. headerNamedOtherwise request1 j ''Content-Length''" using r1(4) by simp
  have k2: "0 < headersCount request2" using r2(3) by simp
  have o2: "\<forall>j<0. headerNamedOtherwise request2 j ''Content-Length''" by simp
  have z: "(0::int) \<le> 0" "(- 7::int) \<le> 0" by simp_all
  from requestParse_first_ContentLength_zero_stays_Body
         [OF r1(1,2) k1 o1 r1(5,6) sscanf_ld_examples(3) z(1)] r1
       requestParse_first_ContentLength_zero_stays_Body
         [OF r2(1,2) k2 o2 r2(4,5) sscanf_ld_examples(4) z(2)] r2
  show ?thesis by blast
qed

text \<open>
  C5 as it is stated fails when two headers are named \<open>Content-Length\<close>: only the
  first one counts. After \<open>Content-Length: abc\<close> and \<open>Content-Length: 5\<close> the
  request has a \<open>Content-Length\<close> header whose value is converted to 5, and yet the
  state after the header block is \<open>Done\<close> and the body is empty.
\<close>

theorem requestParse_second_ContentLength_counterexample:
  "\<not> isl (requestParse_chunks zeroRequest
             [''POST / H'', ''TTP/1.0'' @ [CR, LF], ''Content-'', ''Length: '', ''abc'' @ [CR, LF],
              ''Content-'', ''Length: '', ''5'' @ [CR, LF], [CR, LF]])
   \<and> headersCount (projr (requestParse_chunks zeroRequest
             [''POST / H'', ''TTP/1.0'' @ [CR, LF], ''Content-'', ''Length: '', ''abc'' @ [CR, LF],
              ''Content-'', ''Length: '', ''5'' @ [CR, LF], [CR, LF]])) = 2
   \<and> headerNamed (projr (requestParse_chunks zeroRequest
             [''POST / H'', ''TTP/1.0'' @ [CR, LF], ''Content-'', ''Length: '', ''abc'' @ [CR, LF],
              ''Content-'', ''Length: '', ''5'' @ [CR, LF], [CR, LF]])) 1 ''Content-Length''
   \<and> poolString_text (projr (requestParse_chunks zeroRequest
             [''POST / H'', ''TTP/1.0'' @ [CR, LF], ''Content-'', ''Length: '', ''abc'' @ [CR, LF],
              ''Content-'', ''Length: '', ''5'' @ [CR, LF], [CR, LF]]))
        (value (headers (projr (requestParse_chunks zeroRequest
             [''POST / H'', ''TTP/1.0'' @ [CR, LF], ''Content-'', ''Length: '', ''abc'' @ [CR, LF],
              ''Content-'', ''Length: '', ''5'' @ [CR, LF], [CR, LF]])) ! 1)) = Some ''5''
   \<and> sscanf_ld ''5'' = Some 5
   \<and> state (projr (requestParse_chunks zeroRequest
             [''POST / H'', ''TTP/1.0'' @ [CR, LF], ''Content-'', ''Length: '', ''abc'' @ [CR, LF],
              ''Content-'', ''Length: '', ''5'' @ [CR, LF], [CR, LF]])) = RequestParseStateDone
   \<and> body (projr (requestParse_chunks zeroRequest
             [''POST / H'', ''TTP/1.0'' @ [CR, LF], ''Content-'', ''Length: '', ''abc'' @ [CR, LF],
              ''Content-'', ''Length: '', ''5'' @ [CR, LF], [CR, LF]]))
       = \<lparr>hs_contents = None, hs_length = 0, hs_capacity = 0\<rparr>"
proof -
  have "\<exists>request.
      requestParse_chunks zeroRequest
             [''POST / H'', ''TTP/1.0'' @ [CR, LF], ''Content-'', ''Length: '', ''abc'' @ [CR, LF],
              ''Content-'', ''Length: '', ''5'' @ [CR, LF], [CR, LF]] = Inr request
    \<and> headersCount request = 2
    \<and> headerNamed request 1 ''Content-Length''
    \<and> poolString_text request (value (headers request ! 1)) = Some ''5''
    \<and> state request = RequestParseStateDone
    \<and> body request = \<lparr>hs_contents = None, hs_length = 0, hs_capacity = 0\<rparr>"
    by (simp add: requestParse_eval headerBlock_eval headerInRequest_eval sscanf_ld_examples)
  then show ?thesis by (auto simp: sscanf_ld_examples)
qed

text \<open>
  C9 as it is stated fails in the same way: after \<open>Content-Length: 5\<close> and
  \<open>Content-Length: 0\<close> the request has a \<open>Content-Length\<close> header whose value is
  converted to 0, and yet the body has the capacity 5 and a block of 6 bytes.
\<close>

theorem requestParse_ContentLength_zero_after_five_counterexample:
  "\<not> isl (requestParse_chunks zeroRequest
             [''POST / H'', ''TTP/1.0'' @ [CR, LF], ''Content-'', ''Length: '', ''5'' @ [CR, LF],
              ''Content-'', ''Length: '', ''0'' @ [CR, LF], [CR, LF]])
   \<and> headersCount (projr (requestParse_chunks zeroRequest
             [''POST / H'', ''TTP/1.0'' @ [CR, LF], ''Content-'', ''Length: '', ''5'' @ [CR, LF],
              ''Content-'', ''Length: '', ''0'' @ [CR, LF], [CR, LF]])) = 2
   \<and> headerNamed (projr (requestParse_chunks zeroRequest
             [''POST / H'', ''TTP/1.0'' @ [CR, LF], ''Content-'', ''Length: '', ''5'' @ [CR, LF],
              ''Content-'', ''Length: '', ''0'' @ [CR, LF], [CR, LF]])) 1 ''Content-Length''
   \<and> poolString_text (projr (requestParse_chunks zeroRequest
             [''POST / H'', ''TTP/1.0'' @ [CR, LF], ''Content-'', ''Length: '', ''5'' @ [CR, LF],
              ''Content-'', ''Length: '', ''0'' @ [CR, LF], [CR, LF]]))
        (value (headers (projr (requestParse_chunks zeroRequest
             [''POST / H'', ''TTP/1.0'' @ [CR, LF], ''Content-'', ''Length: '', ''5'' @ [CR, LF],
              ''Content-'', ''Length: '', ''0'' @ [CR, LF], [CR, LF]])) ! 1)) = Some ''0''
   \<and> sscanf_ld ''0'' = Some 0
   \<and> state (projr (requestParse_chunks zeroRequest
             [''POST / H'', ''TTP/1.0'' @ [CR, LF], ''Content-'', ''Length: '', ''5'' @ [CR, LF],
              ''Content-'', ''Length: '', ''0'' @ [CR, LF], [CR, LF]])) = RequestParseStateBody
   \<and> body (projr (requestParse_chunks zeroRequest
             [''POST / H'', ''TTP/1.0'' @ [CR, LF], ''Content-'', ''Length: '', ''5'' @ [CR, LF],
              ''Content-'', ''Length: '', ''0'' @ [CR, LF], [CR, LF]]))
       = \<lparr>hs_contents = Some (replicate 6 NUL), hs_length = 0, hs_capacity = 5\<rparr>"
proof -
  have "\<exists>request.
      requestParse_chunks zeroRequest
             [''POST / H'', ''TTP/1.0'' @ [CR, LF], ''Content-'', ''Length: '', ''5'' @ [CR, LF],
              ''Content-'', ''Length: '', ''0'' @ [CR, LF], [CR, LF]] = Inr request
    \<and> headersCount request = 2
    \<and> headerNamed request 1 ''Content-Length''
    \<and> poolString_text request (value (headers request ! 1)) = Some ''0''
    \<and> state request = RequestParseStateBody
    \<and> body request = \<lparr>hs_contents = Some (replicate 6 NUL), hs_length = 0, hs_capacity = 5\<rparr>"
    by (simp add: requestParse_eval headerBlock_eval headerInRequest_eval sscanf_ld_examples
          del: replicate.simps replicate_Suc)
  then show ?thesis by (auto simp: sscanf_ld_examples simp del: replicate.simps replicate_Suc)
qed

text \<open>
  Inputs on which the parser faults at the end of the header block. A header line
  with an empty name (\<open>: x\<close>) is committed with its \<open>name.contents\<close> NULL, and
  \<open>headerInRequest\<close> passes that pointer to \<open>strcasecmp\<close> (line 391), whether a
  \<open>Content-Length\<close> header follows it or not. After \<open>Content-Length: 0\<close> the state
  is \<open>Body\<close> with no block, and the next byte is stored through the NULL
  \<open>body.contents\<close>.
\<close>

lemma requestParse_empty_header_name_fault:
  "requestParse_chunks zeroRequest
     [''GET / HT'', ''TP/1.0'' @ [CR, LF], '': x'' @ [CR, LF], [CR, LF]]
   = Inl NullPointerDereference"
  by (simp add: requestParse_eval headerInRequest_eval)

lemma requestParse_empty_header_name_before_ContentLength_fault:
  "requestParse_chunks zeroRequest
     [''POST / H'', ''TTP/1.0'' @ [CR, LF], '': x'' @ [CR, LF],
      ''Content-'', ''Length: '', ''0'' @ [CR, LF], [CR, LF]]
   = Inl NullPointerDereference"
  by (simp add: requestParse_eval headerInRequest_eval)

lemma requestParse_byte_after_ContentLength_zero_fault:
  "requestParse_chunks zeroRequest
     [''POST / H'', ''TTP/1.0'' @ [CR, LF], ''Content-'', ''Length: '', ''0'' @ [CR, LF, CR, LF],
      ''x'']
   = Inl NullPointerDereference"
  by (simp add: requestParse_eval headerInRequest_eval sscanf_ld_examples)

text \<open>
  The scenarios of the specification: a request without headers, and a body of five
  bytes followed by a sixth byte.
\<close>

lemma requestParse_scenario_no_headers:
  "\<not> isl (requestParse_chunks zeroRequest [''GET /ind'', ''ex.html '', ''HTTP/1.0'', [CR, LF, CR, LF]])
   \<and> state (projr (requestParse_chunks zeroRequest
         [''GET /ind'', ''ex.html '', ''HTTP/1.0'', [CR, LF, CR, LF]])) = RequestParseStateDone
   \<and> cstring_at (method (projr (requestParse_chunks zeroRequest
         [''GET /ind'', ''ex.html '', ''HTTP/1.0'', [CR, LF, CR, LF]]))) 0 = Inr ''GET''
   \<and> cstring_at (path (projr (requestParse_chunks zeroRequest
         [''GET /ind'', ''ex.html '', ''HTTP/1.0'', [CR, LF, CR, LF]]))) 0 = Inr ''/index.html''
   \<and> headersCount (projr (requestParse_chunks zeroRequest
         [''GET /ind'', ''ex.html '', ''HTTP/1.0'', [CR, LF, CR, LF]])) = 0
   \<and> body (projr (requestParse_chunks zeroRequest
         [''GET /ind'', ''ex.html '', ''HTTP/1.0'', [CR, LF, CR, LF]]))
       = \<lparr>hs_contents = None, hs_length = 0, hs_capacity = 0\<rparr>"
proof -
  have "\<exists>request.
      requestParse_chunks zeroRequest [''GET /ind'', ''ex.html '', ''HTTP/1.0'', [CR, LF, CR, LF]]
        = Inr request
    \<and> state request = RequestParseStateDone
    \<and> cstring_at (method request) 0 = Inr ''GET''
    \<and> cstring_at (path request) 0 = Inr ''/index.html''
    \<and> headersCount request = 0
    \<and> body request = \<lparr>hs_contents = None, hs_length = 0, hs_capacity = 0\<rparr>"
    by (simp add: requestParse_eval headerInRequest_eval)
  then show ?thesis by auto
qed

lemma requestParse_scenario_body:
  "\<exists>request.
      requestParse_chunks zeroRequest
        [''POST / H'', ''TTP/1.0'' @ [CR, LF], ''Content-'', ''Length: '', ''5'' @ [CR, LF, CR, LF],
         ''hello''] = Inr request
    \<and> state request = RequestParseStateDone
    \<and> body request = \<lparr>hs_contents = Some (''hello'' @ [NUL]), hs_length = 5, hs_capacity = 5\<rparr>
    \<and> \<not> bodyTruncated (warnings request)
    \<and> requestParse request ''!''
          = Inr (request\<lparr>warnings := (warnings request)\<lparr>bodyTruncated := True\<rparr>\<rparr>)"
  by (simp add: requestParse_eval headerInRequest_eval sscanf_ld_examples)

subsection \<open>The value of a header\<close>

text \<open>
  What the case \<open>HeaderValue\<close> does with a byte. With a header left to fill
  (\<open>headersCount < REQUEST_MAX_HEADERS\<close>): a space that arrives while the value is
  empty leaves the request as it is; CR moves to the state \<open>CR\<close> and increments
  \<open>headersCount\<close> when the value is not empty, and only then; any other byte is
  appended to the value in the pool, when the pool has room (a value that has been
  started, the first byte of a value that is not the first string of the pool, and the
  first byte of a value that is the first string of the pool). With no header left, CR
  moves to the state \<open>CR\<close>, \<open>headersCount\<close> stays, and any other byte is dropped.
\<close>

lemma requestParse_HeaderValue_bytes:
  assumes "state request = RequestParseStateHeaderValue"
  shows "(headersCount request < REQUEST_MAX_HEADERS
          \<and> load_at (headers request) (headersCount request) = Inr header
          \<and> ps_length (value header) = 0 \<longrightarrow>
            requestParse_step request (CHR '' '') = Inr (request, False))
       \<and> (headersCount request < REQUEST_MAX_HEADERS
          \<and> load_at (headers request) (headersCount request) = Inr header \<longrightarrow>
            requestParse_step request CR =
              Inr (if 0 < ps_length (value header)
                   then request\<lparr>headersCount := headersCount request + 1,
                                state := RequestParseStateCR\<rparr>
                   else request\<lparr>state := RequestParseStateCR\<rparr>, False))
       \<and> (headersCount request < REQUEST_MAX_HEADERS
          \<and> load_at (headers request) (headersCount request) = Inr header
          \<and> c \<noteq> CR \<and> (c \<noteq> CHR '' '' \<or> 0 < ps_length (value header))
          \<and> ps_contents (value header) = Some contents
          \<and> headersStringPoolOffset request
                < REQUEST_HEADERS_MAX_MEMORY - 1 - sizeof_character_constant
          \<and> contents + ps_length (value header) < length (headersStringPool request) \<longrightarrow>
            requestParse_step request c =
              Inr (request\<lparr>headersStringPool :=
                             (headersStringPool request)[contents + ps_length (value header) := c],
                           headersStringPoolOffset := headersStringPoolOffset request + 1,
                           headers := (headers request)[headersCount request :=
                             header\<lparr>value := (value header)\<lparr>ps_length :=
                                      ps_length (value header) + 1\<rparr>\<rparr>]\<rparr>, False))
       \<and> (headersCount request < REQUEST_MAX_HEADERS
          \<and> load_at (headers request) (headersCount request) = Inr header
          \<and> c \<noteq> CR \<and> c \<noteq> CHR '' ''
          \<and> ps_contents (value header) = None \<and> ps_length (value header) = 0
          \<and> 0 < headersStringPoolOffset request
          \<and> headersStringPoolOffset request + 1
                < REQUEST_HEADERS_MAX_MEMORY - 1 - sizeof_character_constant
          \<and> headersStringPoolOffset request + 1 < length (headersStringPool request) \<longrightarrow>
            requestParse_step request c =
              Inr (request\<lparr>headersStringPool :=
                             (headersStringPool request)[headersStringPoolOffset request + 1 := c],
                           headersStringPoolOffset := headersStringPoolOffset request + 2,
                           headers := (headers request)[headersCount request :=
                             header\<lparr>value := \<lparr>ps_contents =
                                        Some (headersStringPoolOffset request + 1),
                                      ps_length = 1\<rparr>\<rparr>]\<rparr>, False))
       \<and> (headersCount request < REQUEST_MAX_HEADERS
          \<and> load_at (headers request) (headersCount request) = Inr header
          \<and> c \<noteq> CR \<and> c \<noteq> CHR '' ''
          \<and> ps_contents (value header) = None \<and> ps_length (value header) = 0
          \<and> headersStringPoolOffset request = 0
          \<and> 0 < length (headersStringPool request) \<longrightarrow>
            requestParse_step request c =
              Inr (request\<lparr>headersStringPool := (headersStringPool request)[0 := c],
                           headersStringPoolOffset := 1,
                           headers := (headers request)[headersCount request :=
                             header\<lparr>value := \<lparr>ps_contents = Some 0, ps_length = 1\<rparr>\<rparr>]\<rparr>,
                   False))
       \<and> (\<not> headersCount request < REQUEST_MAX_HEADERS \<longrightarrow>
            requestParse_step request c =
              Inr (if c = CR then request\<lparr>state := RequestParseStateCR\<rparr> else request, False))"
  using assms
  by (auto simp: requestParse_step_def requestParse_HeaderValue_def
        poolStringStartNewString_def poolStringAppendChar_def poolString_load_def
        poolString_store_def load_at_def store_at_def)

lemma requestParse_HeaderValue_bytes_example:
  "(\<exists>request.
      requestParse_chunks zeroRequest [''GET / HT'', ''TP/1.0'' @ [CR, LF], ''Host:''] = Inr request
    \<and> state request = RequestParseStateHeaderValue
    \<and> headersCount request < REQUEST_MAX_HEADERS
    \<and> requestParse_step request (CHR '' '') = Inr (request, False)
    \<and> requestParse_step request CR = Inr (request\<lparr>state := RequestParseStateCR\<rparr>, False)
    \<and> requestParse_step request (CHR ''x'') =
          Inr (request\<lparr>headersStringPool := (headersStringPool request)[5 := CHR ''x''],
                       headersStringPoolOffset := 6,
                       headers := (headers request)[0 :=
                         \<lparr>name = \<lparr>ps_contents = Some 0, ps_length = 4\<rparr>,
                          value = \<lparr>ps_contents = Some 5, ps_length = 1\<rparr>\<rparr>]\<rparr>, False))
   \<and> (\<exists>request.
      requestParse_chunks zeroRequest [''GET / HT'', ''TP/1.0'' @ [CR, LF], ''Host: x''] = Inr request
    \<and> state request = RequestParseStateHeaderValue
    \<and> requestParse_step request CR =
          Inr (request\<lparr>headersCount := 1, state := RequestParseStateCR\<rparr>, False)
    \<and> requestParse_step request (CHR '' '') =
          Inr (request\<lparr>headersStringPool := (headersStringPool request)[6 := CHR '' ''],
                       headersStringPoolOffset := 7,
                       headers := (headers request)[0 :=
                         \<lparr>name = \<lparr>ps_contents = Some 0, ps_length = 4\<rparr>,
                          value = \<lparr>ps_contents = Some 5, ps_length = 2\<rparr>\<rparr>]\<rparr>, False))"
proof -
  have "\<exists>request.
      requestParse_chunks zeroRequest [''GET / HT'', ''TP/1.0'' @ [CR, LF], ''Host:''] = Inr request
    \<and> state request = RequestParseStateHeaderValue
    \<and> headersCount request = 0
    \<and> load_at (headers request) (headersCount request)
          = Inr \<lparr>name = \<lparr>ps_contents = Some 0, ps_length = 4\<rparr>,
                 value = \<lparr>ps_contents = None, ps_length = 0\<rparr>\<rparr>
    \<and> headersStringPoolOffset request = 4
    \<and> length (headersStringPool request) = REQUEST_HEADERS_MAX_MEMORY"
    by (simp add: requestParse_eval)
  then obtain request1 where r1:
    "requestParse_chunks zeroRequest [''GET / HT'', ''TP/1.0'' @ [CR, LF], ''Host:''] = Inr request1"
    "state request1 = RequestParseStateHeaderValue"
    "headersCount request1 = 0"
    "load_at (headers request1) (headersCount request1)
          = Inr \<lparr>name = \<lparr>ps_contents = Some 0, ps_length = 4\<rparr>,
                 value = \<lparr>ps_contents = None, ps_length = 0\<rparr>\<rparr>"
    "headersStringPoolOffset request1 = 4"
    "length (headersStringPool request1) = REQUEST_HEADERS_MAX_MEMORY"
    by (elim exE conjE)
  have "\<exists>request.
      requestParse_chunks zeroRequest [''GET / HT'', ''TP/1.0'' @ [CR, LF], ''Host: x''] = Inr request
    \<and> state request = RequestParseStateHeaderValue
    \<and> headersCount request = 0
    \<and> load_at (headers request) (headersCount request)
          = Inr \<lparr>name = \<lparr>ps_contents = Some 0, ps_length = 4\<rparr>,
                 value = \<lparr>ps_contents = Some 5, ps_length = 1\<rparr>\<rparr>
    \<and> headersStringPoolOffset request = 6
    \<and> length (headersStringPool request) = REQUEST_HEADERS_MAX_MEMORY"
    by (simp add: requestParse_eval)
  then obtain request2 where r2:
    "requestParse_chunks zeroRequest [''GET / HT'', ''TP/1.0'' @ [CR, LF], ''Host: x''] = Inr request2"
    "state request2 = RequestParseStateHeaderValue"
    "headersCount request2 = 0"
    "load_at (headers request2) (headersCount request2)
          = Inr \<lparr>name = \<lparr>ps_contents = Some 0, ps_length = 4\<rparr>,
                 value = \<lparr>ps_contents = Some 5, ps_length = 1\<rparr>\<rparr>"
    "headersStringPoolOffset request2 = 6"
    "length (headersStringPool request2) = REQUEST_HEADERS_MAX_MEMORY"
    by (elim exE conjE)
  note t1 = requestParse_HeaderValue_bytes [OF r1(2),
     of "\<lparr>name = \<lparr>ps_contents = Some 0, ps_length = 4\<rparr>,
          value = \<lparr>ps_contents = None, ps_length = 0\<rparr>\<rparr>" "CHR ''x''" 0]
  note t2 = requestParse_HeaderValue_bytes [OF r2(2),
     of "\<lparr>name = \<lparr>ps_contents = Some 0, ps_length = 4\<rparr>,
          value = \<lparr>ps_contents = Some 5, ps_length = 1\<rparr>\<rparr>" "CHR '' ''" 5]
  have 1: "requestParse_step request1 (CHR '' '') = Inr (request1, False)"
      "requestParse_step request1 CR = Inr (request1\<lparr>state := RequestParseStateCR\<rparr>, False)"
      "requestParse_step request1 (CHR ''x'') =
          Inr (request1\<lparr>headersStringPool := (headersStringPool request1)[5 := CHR ''x''],
                       headersStringPoolOffset := 6,
                       headers := (headers request1)[0 :=
                         \<lparr>name = \<lparr>ps_contents = Some 0, ps_length = 4\<rparr>,
                          value = \<lparr>ps_contents = Some 5, ps_length = 1\<rparr>\<rparr>]\<rparr>, False)"
    using t1 r1(3-6) by simp_all
  have 2: "requestParse_step request2 CR =
          Inr (request2\<lparr>headersCount := 1, state := RequestParseStateCR\<rparr>, False)"
      "requestParse_step request2 (CHR '' '') =
          Inr (request2\<lparr>headersStringPool := (headersStringPool request2)[6 := CHR '' ''],
                       headersStringPoolOffset := 7,
                       headers := (headers request2)[0 :=
                         \<lparr>name = \<lparr>ps_contents = Some 0, ps_length = 4\<rparr>,
                          value = \<lparr>ps_contents = Some 5, ps_length = 2\<rparr>\<rparr>]\<rparr>, False)"
    using t2 r2(3-6) by (simp_all add: numeral_2_eq_2)
  from r1(1,2,3) 1 r2(1,2) 2 show ?thesis by simp
qed

text \<open>
  C6. The claim, like the comment of the code (line 1072, \<open>skip the first space\<close>),
  has the second leading space accumulated into the value. The code skips it like the
  first one, since the value is still empty when it arrives: the header \<open>Host:  x\<close>
  gives the same request as \<open>Host: x\<close>, with the value \<open>x\<close> of length 1 and not the
  value of length 2 that begins with a space.
\<close>

theorem requestParse_second_space_skipped:
  "requestParse_chunks zeroRequest [''GET / HT'', ''TP/1.0'' @ [CR, LF], ''Host:  x'']
     = requestParse_chunks zeroRequest [''GET / HT'', ''TP/1.0'' @ [CR, LF], ''Host: x'']
   \<and> \<not> isl (requestParse_chunks zeroRequest [''GET / HT'', ''TP/1.0'' @ [CR, LF], ''Host:  x''])
   \<and> value (headers (projr (requestParse_chunks zeroRequest
          [''GET / HT'', ''TP/1.0'' @ [CR, LF], ''Host:  x''])) ! 0)
       = \<lparr>ps_contents = Some 5, ps_length = 1\<rparr>
   \<and> cstring_at (headersStringPool (projr (requestParse_chunks zeroRequest
          [''GET / HT'', ''TP/1.0'' @ [CR, LF], ''Host:  x'']))) 5 = Inr ''x''"
proof -
  have "\<exists>request.
      requestParse_chunks zeroRequest [''GET / HT'', ''TP/1.0'' @ [CR, LF], ''Host:  x''] = Inr request
    \<and> requestParse_chunks zeroRequest [''GET / HT'', ''TP/1.0'' @ [CR, LF], ''Host: x''] = Inr request
    \<and> value (headers request ! 0) = \<lparr>ps_contents = Some 5, ps_length = 1\<rparr>
    \<and> cstring_at (headersStringPool request) 5 = Inr ''x''"
    by (simp add: requestParse_eval)
  then show ?thesis by auto
qed

end
